theory Spec2Isabelle
  imports Complex_Main "HOL-Library.AList" "HOL-Library.Sublist" "HOL-Library.Multiset"
begin

section \<open>Python strings and exceptions\<close>

text \<open>
  The notebook \<^verbatim>\<open>gymProgress.ipynb\<close> repairs two CSV exports and reconciles them with
  pandas. Python strings are modelled as \<^typ>\<open>string\<close>: a character is a code point
  below 256. Every exception the modelled functions can raise is a constructor
  of \<open>error\<close>, and a function that can raise returns \<open>error + 'a\<close>.
\<close>

datatype error = StopIteration | IndexError | ValueError | KeyError | AttributeError | OverflowError

text \<open>\<^verbatim>\<open>s[:-n]\<close> and \<^verbatim>\<open>s[-n:]\<close> for a positive literal \<open>n\<close>: a negative index is
  counted from the end and clipped at the start of the sequence.\<close>

definition slice_to_neg :: "nat \<Rightarrow> 'a list \<Rightarrow> 'a list" where
  "slice_to_neg n xs = take (length xs - n) xs"

definition slice_from_neg :: "nat \<Rightarrow> 'a list \<Rightarrow> 'a list" where
  "slice_from_neg n xs = drop (length xs - n) xs"

text \<open>\<^verbatim>\<open>s.startswith(p)\<close>, and the substring test \<^verbatim>\<open>sub in s\<close>.\<close>

fun startswith :: "string \<Rightarrow> string \<Rightarrow> bool" where
  "startswith s [] = True"
| "startswith [] (p # ps) = False"
| "startswith (c # cs) (p # ps) = (c = p \<and> startswith cs ps)"

fun contains :: "string \<Rightarrow> string \<Rightarrow> bool" where
  "contains sub [] = (sub = [])"
| "contains sub (c # cs) = (startswith (c # cs) sub \<or> contains sub cs)"

text \<open>\<^verbatim>\<open>s.replace(old, new)\<close>: the non-overlapping occurrences of \<open>old\<close> are replaced
  from left to right; an empty \<open>old\<close> matches before every character and at the end.\<close>

function str_replace :: "string \<Rightarrow> string \<Rightarrow> string \<Rightarrow> string" where
  "str_replace old new s =
     (if old = [] then new @ concat (map (\<lambda>c. c # new) s)
      else if s = [] then []
      else if startswith s old then new @ str_replace old new (drop (length old) s)
      else hd s # str_replace old new (tl s))"
  by pat_completeness auto
termination
  by (relation "measure (\<lambda>(old, new, s). length s)") auto

declare str_replace.simps [simp del]

section \<open>Repairing line breaks in the Progression export\<close>

text \<open>
  \<^verbatim>\<open>re.match("\d{4}-\d{2}-\d{2}", s)\<close> succeeds when \<open>s\<close> begins with four digits, a
  hyphen, two digits, a hyphen and two digits; what follows is not looked at. Among the
  code points below 256 the class \<^verbatim>\<open>\d\<close> holds the ten ASCII digits.
\<close>

definition re_digit :: "char \<Rightarrow> bool" where
  "re_digit c = (c \<in> set ''0123456789'')"

definition match_date :: "string \<Rightarrow> bool" where
  "match_date s =
     (10 \<le> length s
      \<and> list_all re_digit (take 4 s) \<and> s ! 4 = CHR ''-''
      \<and> list_all re_digit (take 2 (drop 5 s)) \<and> s ! 7 = CHR ''-''
      \<and> list_all re_digit (take 2 (drop 8 s)))"

text \<open>
  Both merging branches of \<^verbatim>\<open>fix_linebreaks\<close> run the same assignment
  \<^verbatim>\<open>
    last_line = fixed_lines[-1]
    fixed_lines[-1] = last_line[:-1] + [". ".join([last_line[-1], next_line[0]])] + next_line[1:]
  \<close>
  which raises \<^verbatim>\<open>IndexError\<close> when \<^verbatim>\<open>last_line\<close> or \<^verbatim>\<open>next_line\<close> is empty.
\<close>

definition join_into_last :: "string list list \<Rightarrow> string list \<Rightarrow> error + string list list" where
  "join_into_last fixed_lines next_line =
     (if fixed_lines = [] then Inl IndexError
      else let last_line = last fixed_lines in
        if last_line = [] \<or> next_line = [] then Inl IndexError
        else Inr (butlast fixed_lines @
                  [slice_to_neg 1 last_line @ [last last_line @ ''. '' @ hd next_line] @ tl next_line]))"

text \<open>
  The loop \<^verbatim>\<open>for line in reader\<close>, with the rows still to be read as a list. An empty
  row makes the loop take the row after it with \<^verbatim>\<open>next(reader)\<close>, which raises
  \<^verbatim>\<open>StopIteration\<close> at the end of the input, and merge that row whatever it holds;
  a row whose first field does not begin with a date is merged itself; any other row
  is appended.
\<close>

fun fix_loop :: "string list list \<Rightarrow> string list list \<Rightarrow> error + string list list" where
  "fix_loop fixed_lines [] = Inr fixed_lines"
| "fix_loop fixed_lines ([] # []) = Inl StopIteration"
| "fix_loop fixed_lines ([] # next_line # reader) =
     (case join_into_last fixed_lines next_line of
        Inl e \<Rightarrow> Inl e
      | Inr fixed_lines' \<Rightarrow> fix_loop fixed_lines' reader)"
| "fix_loop fixed_lines ((field # fields) # reader) =
     (if \<not> match_date field then
        (case join_into_last fixed_lines (field # fields) of
           Inl e \<Rightarrow> Inl e
         | Inr fixed_lines' \<Rightarrow> fix_loop fixed_lines' reader)
      else fix_loop (fixed_lines @ [field # fields]) reader)"

definition fix_linebreaks :: "string list list \<Rightarrow> error + string list list" where
  "fix_linebreaks reader =
     (case reader of [] \<Rightarrow> Inl StopIteration | header # rest \<Rightarrow> fix_loop [header] rest)"

text \<open>A kept row that opens a set: it has a first field, and that field begins with a date.\<close>

definition date_row :: "string list \<Rightarrow> bool" where
  "date_row row = (row \<noteq> [] \<and> match_date (hd row))"

text \<open>
  The merge in the words of the specification: the last field of the kept row and the
  continuation text are joined with \<^verbatim>\<open>". "\<close>, and the remaining fields of the
  continuation follow.
\<close>

definition merged_row :: "string list \<Rightarrow> string list \<Rightarrow> string list" where
  "merged_row kept continuation =
     butlast kept @ [last kept @ ''. '' @ hd continuation] @ tl continuation"

text \<open>The invariant of the loop: there is a first row, and every row after it opens a set.\<close>

definition kept_ok :: "string list list \<Rightarrow> bool" where
  "kept_ok fixed_lines = (fixed_lines \<noteq> [] \<and> (\<forall>row \<in> set (tl fixed_lines). date_row row))"

section \<open>Replacing commas in the comments of the Progression export\<close>

text \<open>
  \<^verbatim>\<open>",".join(line)\<close>, \<^verbatim>\<open>line.split(",")\<close> and \<^verbatim>\<open>line.count(",")\<close>. Splitting the empty
  string yields one empty part.
\<close>

fun join_comma :: "string list \<Rightarrow> string" where
  "join_comma [] = []"
| "join_comma [field] = field"
| "join_comma (field # fields) = field @ '','' @ join_comma fields"

fun split_comma :: "string \<Rightarrow> string list" where
  "split_comma [] = [[]]"
| "split_comma (c # cs) =
     (if c = CHR '','' then [] # split_comma cs
      else let parts = split_comma cs in (c # hd parts) # tl parts)"

definition count_commas :: "string \<Rightarrow> nat" where
  "count_commas s = count_list s (CHR '','')"

text \<open>
  \<^verbatim>\<open>str.isdigit\<close> on one character: the ASCII digits and, below 256, the superscripts
  two, three and one (code points 178, 179 and 185).
\<close>

definition isdigit :: "char \<Rightarrow> bool" where
  "isdigit c = (re_digit c \<or> of_char c \<in> {178, 179, 185 :: nat})"

text \<open>
  \<^verbatim>\<open>fixed_parts[-1] += s\<close>, and the loop over \<^verbatim>\<open>comment_parts[1:]\<close>:
  \<^verbatim>\<open>
    if part and part[0] == " ":
        fixed_parts[-1] += ";" + part
    elif part and part[0].isdigit() and fixed_parts[-1][-1].isdigit():
        fixed_parts[-1] += "." + part
    else:
        fixed_parts.append(part)
  \<close>
  The test \<^verbatim>\<open>fixed_parts[-1][-1]\<close> is reached when \<^verbatim>\<open>part\<close> begins with a digit, and
  raises \<^verbatim>\<open>IndexError\<close> when the last merged part is the empty string.
\<close>

definition append_to_last :: "string list \<Rightarrow> string \<Rightarrow> error + string list" where
  "append_to_last fixed_parts s =
     (if fixed_parts = [] then Inl IndexError
      else Inr (butlast fixed_parts @ [last fixed_parts @ s]))"

fun fix_parts :: "string list \<Rightarrow> string list \<Rightarrow> error + string list" where
  "fix_parts fixed_parts [] = Inr fixed_parts"
| "fix_parts fixed_parts (part # comment_parts) =
     (if part \<noteq> [] \<and> hd part = CHR '' '' then
        (case append_to_last fixed_parts ('';'' @ part) of
           Inl e \<Rightarrow> Inl e
         | Inr fixed_parts' \<Rightarrow> fix_parts fixed_parts' comment_parts)
      else if part \<noteq> [] \<and> isdigit (hd part) then
        (if fixed_parts = [] \<or> last fixed_parts = [] then Inl IndexError
         else if isdigit (last (last fixed_parts)) then
           (case append_to_last fixed_parts (''.'' @ part) of
              Inl e \<Rightarrow> Inl e
            | Inr fixed_parts' \<Rightarrow> fix_parts fixed_parts' comment_parts)
         else fix_parts (fixed_parts @ [part]) comment_parts)
      else fix_parts (fixed_parts @ [part]) comment_parts)"

text \<open>
  The body of the loop over the rows. A row with more commas than the header is cut
  into \<^verbatim>\<open>line.split(",")[:14]\<close>, \<^verbatim>\<open>[14:-2]\<close> and \<^verbatim>\<open>[-2:]\<close>; \<^verbatim>\<open>comment_parts[0]\<close>
  raises \<^verbatim>\<open>IndexError\<close> when the middle slice is empty, and more than two merged parts
  raise \<^verbatim>\<open>ValueError\<close>. Every row is joined and split again before it is appended.
\<close>

definition fix_line :: "nat \<Rightarrow> string list \<Rightarrow> error + string list" where
  "fix_line column_count fields =
     (let line = join_comma fields; comma_count = count_commas line in
      if comma_count > column_count then
        (let first_parts = take 14 (split_comma line);
             comment_parts = drop 14 (slice_to_neg 2 (split_comma line));
             end_parts = slice_from_neg 2 (split_comma line)
         in if comment_parts = [] then Inl IndexError
            else case fix_parts [hd comment_parts] (tl comment_parts) of
                   Inl e \<Rightarrow> Inl e
                 | Inr fixed_parts \<Rightarrow>
                     if length fixed_parts > 2 then Inl ValueError
                     else Inr (split_comma (join_comma (first_parts @ fixed_parts @ end_parts))))
      else Inr (split_comma line))"

fun fix_lines :: "nat \<Rightarrow> string list list \<Rightarrow> string list list \<Rightarrow> error + string list list" where
  "fix_lines column_count fixed_lines [] = Inr fixed_lines"
| "fix_lines column_count fixed_lines (line # rows) =
     (case fix_line column_count line of
        Inl e \<Rightarrow> Inl e
      | Inr line' \<Rightarrow> fix_lines column_count (fixed_lines @ [line']) rows)"

text \<open>\<^verbatim>\<open>header_line = next(rows)\<close> raises \<^verbatim>\<open>StopIteration\<close> on an empty input.\<close>

definition replace_comma_in_comments :: "string list list \<Rightarrow> error + string list list" where
  "replace_comma_in_comments rows =
     (case rows of
        [] \<Rightarrow> Inl StopIteration
      | header_line # rest \<Rightarrow>
          fix_lines (count_commas (join_comma header_line)) [header_line] rest)"

text \<open>
  The merging heuristic in the words of the specification: a part starting with a space
  is joined to its predecessor with \<^verbatim>\<open>;\<close>, a part starting with a digit is joined to a
  predecessor ending in a digit with \<^verbatim>\<open>.\<close>, and any other part starts a new comment
  part.
\<close>

definition starts_with_space :: "string \<Rightarrow> bool" where
  "starts_with_space part = (part \<noteq> [] \<and> hd part = CHR '' '')"

definition starts_with_digit :: "string \<Rightarrow> bool" where
  "starts_with_digit part = (part \<noteq> [] \<and> isdigit (hd part))"

definition ends_with_digit :: "string \<Rightarrow> bool" where
  "ends_with_digit part = (part \<noteq> [] \<and> isdigit (last part))"

definition merge_step :: "string list \<Rightarrow> string \<Rightarrow> string list" where
  "merge_step merged part =
     (if starts_with_space part then butlast merged @ [last merged @ '';'' @ part]
      else if starts_with_digit part \<and> ends_with_digit (last merged)
        then butlast merged @ [last merged @ ''.'' @ part]
      else merged @ [part])"

definition merge_comment_parts :: "string list \<Rightarrow> string list" where
  "merge_comment_parts comment_parts = foldl merge_step [hd comment_parts] (tl comment_parts)"

text \<open>
  The inputs on which the digit test of the code meets an empty merged part, and the
  middle slice \<^verbatim>\<open>[14:-2]\<close> of a row.
\<close>

fun digit_after_empty :: "string list \<Rightarrow> string list \<Rightarrow> bool" where
  "digit_after_empty merged [] = False"
| "digit_after_empty merged (part # parts) =
     ((starts_with_digit part \<and> last merged = [])
      \<or> digit_after_empty (merge_step merged part) parts)"

definition comment_parts_of :: "string list \<Rightarrow> string list" where
  "comment_parts_of fields = drop 14 (slice_to_neg 2 (split_comma (join_comma fields)))"

text \<open>No part holds a comma.\<close>

definition comma_free :: "string list \<Rightarrow> bool" where
  "comma_free parts = (\<forall>part \<in> set parts. CHR '','' \<notin> set part)"

section \<open>Singular forms of exercise names\<close>

text \<open>
  \<^verbatim>\<open>singularize(exercises: set[str]) -> dict\<close>. The argument is the set in the order its
  iteration yields it. A \<^verbatim>\<open>dict\<close> is an association list in insertion order:
  assigning to a key that is present replaces its value in place, assigning to a new key
  appends it, which is \<^const>\<open>AList.update\<close>. The first loop collects the pairs
  \<^verbatim>\<open>[exercise, singular_replacement]\<close>:
  \<^verbatim>\<open>
    if exercise[-2:] == "es":   singles.append([exercise, exercise[:-2]])
    elif exercise[-1:] == "s" and not exercise[-2:] == "ss":
                                singles.append([exercise, exercise[:-1]])
  \<close>
\<close>

fun singles_of :: "string list \<Rightarrow> (string \<times> string) list" where
  "singles_of [] = []"
| "singles_of (exercise # exercises) =
     (if slice_from_neg 2 exercise = ''es''
        then (exercise, slice_to_neg 2 exercise) # singles_of exercises
      else if slice_from_neg 1 exercise = ''s'' \<and> \<not> slice_from_neg 2 exercise = ''ss''
        then (exercise, slice_to_neg 1 exercise) # singles_of exercises
      else singles_of exercises)"

definition dict_of :: "('k \<times> 'v) list \<Rightarrow> ('k \<times> 'v) list" where
  "dict_of items = fold (\<lambda>(k, v) d. AList.update k v d) items []"

text \<open>
  The second loop visits every key of the dictionary and, for every exception it
  contains, overwrites the key's value:
  \<^verbatim>\<open>
    for exercise in map_plural_to_singular:
        for exception in plural_exceptions:
            if exception in exercise:
                singular_replacement = exercise.replace(exception[:-2], exception[:-1])
                map_plural_to_singular[exercise] = singular_replacement
  \<close>
  \<^verbatim>\<open>plural_exceptions\<close> is the set \<^verbatim>\<open>{"Lunges", "Raises"}\<close>, whose iteration order Python
  does not fix, so the order is a parameter of the model.
\<close>

definition apply_exception :: "string \<Rightarrow> string \<Rightarrow> (string \<times> string) list \<Rightarrow> (string \<times> string) list" where
  "apply_exception exercise exception d =
     (if contains exception exercise
      then AList.update exercise
             (str_replace (slice_to_neg 2 exception) (slice_to_neg 1 exception) exercise) d
      else d)"

definition keep_e :: "string list \<Rightarrow> (string \<times> string) list \<Rightarrow> (string \<times> string) list" where
  "keep_e plural_exceptions d =
     fold (\<lambda>exercise d'. fold (apply_exception exercise) plural_exceptions d') (map fst d) d"

definition singularize_in :: "string list \<Rightarrow> string list \<Rightarrow> (string \<times> string) list" where
  "singularize_in plural_exceptions exercises = keep_e plural_exceptions (dict_of (singles_of exercises))"

definition singularize :: "string list \<Rightarrow> (string \<times> string) list" where
  "singularize exercises = singularize_in [''Lunges'', ''Raises''] exercises"

section \<open>Skipped sets of the GymBook export\<close>

text \<open>
  A \<^verbatim>\<open>DataFrame\<close> is the list of its rows in order, each with its index label. The
  rows here have a column \<^verbatim>\<open>Ausgelassen\<close>, a string or missing, and any other columns.
  \<^verbatim>\<open>df.drop(labels, errors="ignore")\<close> removes every row whose label is among
  \<^verbatim>\<open>labels\<close>:
  \<^verbatim>\<open>
    skipped_sets = df[df["Ausgelassen"] == "Ja"]
    df_no_skipped_sets = df.drop(skipped_sets.index, errors="ignore")
  \<close>
\<close>

record skipped_column =
  Ausgelassen :: "string option"

definition drop_labels :: "int list \<Rightarrow> (int \<times> 'r) list \<Rightarrow> (int \<times> 'r) list" where
  "drop_labels labels df = filter (\<lambda>(label, row). label \<notin> set labels) df"

definition remove_skipped_sets ::
  "(int \<times> 'a skipped_column_scheme) list \<Rightarrow> (int \<times> 'a skipped_column_scheme) list" where
  "remove_skipped_sets df =
     (let skipped_sets = filter (\<lambda>(label, row). Ausgelassen row = Some ''Ja'') df
      in drop_labels (map fst skipped_sets) df)"

section \<open>Exercise aliases\<close>

text \<open>
  The three alias dictionaries of the notebook, as written there; a key written twice
  keeps its place and takes the later value (\<^const>\<open>dict_of\<close>). The fourth,
  \<^verbatim>\<open>map_gymbook_plural_to_singular\<close>, is the result of \<^const>\<open>singularize\<close>.
\<close>

definition map_gymbook_to_progression :: "(string \<times> string) list" where
  "map_gymbook_to_progression = dict_of
     [(''Ab Wheel'', ''Ab Roller''),
      (''Alternating Dumbbell Preacher Curl'', ''Alternating Dumbbell Curl''),
      (''Arnold Press'', ''Arnold Dumbbell Press (Seated)''),
      (''Back Extension'', ''Machine Hyperextension''),
      (''Bulgarian Split Squat '', ''Bulgarian Split Squat''),
      (''Cable Fly'', ''Cable Back Fly''),
      (''Calf Press in Leg Press'', ''Machine Calf Press''),
      (''Chin-Up'', ''Chinup''),
      (''Concentration Curl'', ''Dumbbell Concentration Curl''),
      (''Crunch'', ''Weighted Crunch''),
      (''Decline Push-Up'', ''Decline Pushup''),
      (''Dumbbell Lateral Raise'', ''Dumbbell Side Raise''),
      (''Dumbbell Press'', ''Dumbbell Shoulder Press''),
      (''Dumbbell Row'', ''Bent-Over Dumbbell Row''),
      (''Dumbbell Skullcrusher'', ''Lying Dumbbell Skull Crusher''),
      (''Hammer Curl'', ''Dumbbell Hammer Curl''),
      (''Kneeling Cable Crunch'', ''Cable Crunch''),
      (''Lat Pull-Down'', ''Machine Lat Pulldown''),
      (''Leg Extension'', ''Machine Leg Extension''),
      (''Leg Press'', ''Machine Leg Press''),
      (''Low Cable One-Arm Lateral Raise'', ''Cable Side Raise''),
      (''Lying Dumbbell Triceps Extension'', ''Dumbbell Triceps Extension''),
      (''Lying EZ-Bar Triceps Extension'', ''Lying Barbell Skull Crusher''),
      (''Lying Leg Curl'', ''Machine Lying Leg Curl''),
      (''Machine Back Extension'', ''Machine Hyperextension''),
      (''Machine Hip Abduction'', ''Machine Thigh Abduction (Out)''),
      (''Machine Trunk Rotation'', ''Torso Rotation Machine''),
      (''One-Leg Leg Extension'', ''Machine Single-Leg Extension''),
      (''Power Clean'', ''Barbell Power Clean''),
      (''Pullups Weighted '', ''Weighted Pullup''),
      (''Push Down'', ''Cable Pushdown (with Bar Handle)''),
      (''Push Press'', ''Barbell Push Press''),
      (''Push-Up'', ''Pushup''),
      (''Seated Leg Curl'', ''Machine Leg Curl''),
      (''Seated Machine Hip Abduction'', ''Machine Thigh Abduction (Out)''),
      (''Seated Machine Row'', ''Machine Row''),
      (''Standing Calf Raise'', ''Machine Calf Raise''),
      (''Standing Machine Calf Raise'', ''Machine Calf Raise''),
      (''Wide-Grip Lat Pull-Down'', ''Wide-Grip Machine Lat Pulldown'')]"

definition map_progression_to_gymbook :: "(string \<times> string) list" where
  "map_progression_to_gymbook = dict_of
     [(''Barbell Curl'', ''EZ-Bar Curl''),
      (''Bent-Over Barbell Row'', ''Barbell Row''),
      (''Butterfly Reverse'', ''Reverse Machine Fly''),
      (''Cable Row'', ''Seated Cable Row''),
      (''Dumbbell Pullover (Targeting back)'', ''Dumbbell Lat Pullover''),
      (''Farmer's Walk (with Dumbbells)'', ''Farmers Walk''),
      (''Farmer's Walk (with Weight Plate)'', ''Farmers Walk''),
      (''Machine Calf Press'', ''Calf Press In Leg Press''),
      (''Press around'', ''Press Around''),
      (''Romanian Deadlift'', ''Barbell Romanian Deadlift''),
      (''Stiff-Leg Deadlift (Wide Stance)'', ''Straight-Leg Barbell Deadlift''),
      (''Sumo Deadlift'', ''Barbell Sumo Deadlift''),
      (''Weighted pistol squat'', ''Pistol squat'')]"

definition map_rename_in_both :: "(string \<times> string) list" where
  "map_rename_in_both = dict_of
     [(''Close-Grip Lat Pull-Down'', ''Close-Grip Machine Lat Pull-Down''),
      (''Machine Bench Press'', ''Seated Machine Bench Press''),
      (''Parallel Bar Dip'', ''Dip''),
      (''Barbell Shrug (Behind the Back)'', ''Barbell Shrug''),
      (''Chest Dip'', ''Dip''),
      (''Machine Bench Press'', ''Seated Machine Bench Press'')]"

text \<open>
  \<^verbatim>\<open>df["Exercise Name"].replace(to_replace, inplace=True)\<close> with a dictionary: every value
  of the column that is a key is replaced by the key's value, every other value stays.
  \<^verbatim>\<open>nunique()\<close> counts the distinct values of the column.
\<close>

definition replace_value :: "(string \<times> string) list \<Rightarrow> string \<Rightarrow> string" where
  "replace_value to_replace name = (case map_of to_replace name of None \<Rightarrow> name | Some new \<Rightarrow> new)"

definition series_replace :: "(string \<times> string) list \<Rightarrow> string list \<Rightarrow> string list" where
  "series_replace to_replace column = map (replace_value to_replace) column"

definition nunique :: "string list \<Rightarrow> nat" where
  "nunique column = card (set column)"

section \<open>The rows of the workout tables\<close>

text \<open>
  After the clean-up both frames hold one row for each set, with the columns the later
  cells work on: \<^verbatim>\<open>Time\<close>, a timestamp in whole seconds, \<^verbatim>\<open>Exercise Name\<close>, and
  \<^verbatim>\<open>Repetitions\<close> and \<^verbatim>\<open>Weight\<close>, numbers that may be missing (\<^verbatim>\<open>NaN\<close>). A row may have
  any other columns. Numbers are real numbers in this model. A frame is the list of its
  rows in order.
\<close>

record workout_set =
  Time :: int
  Exercise_Name :: string
  Repetitions :: "real option"
  Weight :: "real option"

section \<open>Session duration and set order of the GymBook frame\<close>

text \<open>
  \<^verbatim>\<open>extend_gymbook_df\<close> adds two columns to every row:
  \<^verbatim>\<open>
    df["Session Duration (s)"] = (
        df.groupby(df["Time"].dt.date)["Time"]
        .transform(lambda x: x.max() - x.min())
        .dt.seconds)
    df["Set Order"] = df.groupby([df["Time"].dt.date, "Exercise Name"]).cumcount() + 1
  \<close>
  \<^verbatim>\<open>dt.date\<close> is the day of a timestamp and \<^verbatim>\<open>dt.seconds\<close> the seconds of a time
  difference within its day. \<^verbatim>\<open>groupby(by)[column].transform(f)\<close> gives every row the
  value of \<open>f\<close> on the column of the rows of its group, and \<^verbatim>\<open>cumcount\<close> gives every
  row the number of rows of its group before it.
\<close>

record 'r with_session =
  set_row :: 'r
  Session_Duration :: int
  Set_Order :: nat

definition date_of :: "int \<Rightarrow> int" where
  "date_of t = t div 86400"

definition timedelta_seconds :: "int \<Rightarrow> int" where
  "timedelta_seconds d = d mod 86400"

definition groupby_transform :: "('r \<Rightarrow> 'k) \<Rightarrow> ('r \<Rightarrow> 'v) \<Rightarrow> ('v list \<Rightarrow> 'w) \<Rightarrow> 'r list \<Rightarrow> 'w list" where
  "groupby_transform by column f df =
     map (\<lambda>r. f (map column (filter (\<lambda>s. by s = by r) df))) df"

definition cumcount :: "('r \<Rightarrow> 'k) \<Rightarrow> 'r list \<Rightarrow> nat list" where
  "cumcount by df =
     map (\<lambda>i. length (filter (\<lambda>s. by s = by (df ! i)) (take i df))) [0..<length df]"

definition session_columns :: "'a workout_set_scheme list \<Rightarrow> 'a workout_set_scheme with_session list" where
  "session_columns df =
     (let session_duration =
            map timedelta_seconds
              (groupby_transform (\<lambda>r. date_of (Time r)) Time (\<lambda>x. Max (set x) - Min (set x)) df);
          set_order =
            map (\<lambda>c. c + 1) (cumcount (\<lambda>r. (date_of (Time r), Exercise_Name r)) df)
      in map (\<lambda>(r, d, k). \<lparr>set_row = r, Session_Duration = d, Set_Order = k\<rparr>)
           (zip df (zip session_duration set_order)))"

text \<open>
  On a frame without rows the groupby has no group, \<^verbatim>\<open>transform\<close> returns an empty
  series that is not of a time difference type, and the access to \<^verbatim>\<open>.dt\<close> raises
  AttributeError before any column is assigned. On every other frame the two columns
  are those of \<open>session_columns\<close>.
\<close>

definition extend_gymbook_df :: "'a workout_set_scheme list \<Rightarrow> error + 'a workout_set_scheme with_session list" where
  "extend_gymbook_df df = (if df = [] then Inl AttributeError else Inr (session_columns df))"

text \<open>The set times on the calendar date of a row.\<close>

definition same_day_times :: "'a workout_set_scheme list \<Rightarrow> 'a workout_set_scheme \<Rightarrow> int set" where
  "same_day_times df r = Time ` {s \<in> set df. date_of (Time s) = date_of (Time r)}"

section \<open>The unified table\<close>

text \<open>
  \<^verbatim>\<open>
    df = pd.concat([df_progression, df_gymbook])
    df = df.sort_values("Time", ascending=False)
    df["Weight"] = df["Weight"].fillna(0).astype(float)
  \<close>
  \<^verbatim>\<open>pd.concat\<close> puts the rows of the second frame after those of the first.
  \<^verbatim>\<open>sort_values\<close> leaves the order of rows with equal keys open; the model keeps them in
  their order.
\<close>

definition pd_concat :: "'r list \<Rightarrow> 'r list \<Rightarrow> 'r list" where
  "pd_concat df1 df2 = df1 @ df2"

definition sort_values_descending :: "('r \<Rightarrow> int) \<Rightarrow> 'r list \<Rightarrow> 'r list" where
  "sort_values_descending by df = sort_key (\<lambda>row. - by row) df"

definition fillna_Weight :: "'a workout_set_scheme \<Rightarrow> 'a workout_set_scheme" where
  "fillna_Weight row = row\<lparr>Weight := Some (case Weight row of None \<Rightarrow> 0 | Some w \<Rightarrow> w)\<rparr>"

definition unified_table ::
  "'a workout_set_scheme list \<Rightarrow> 'a workout_set_scheme list \<Rightarrow> 'a workout_set_scheme list" where
  "unified_table df_progression df_gymbook =
     map fillna_Weight (sort_values_descending Time (pd_concat df_progression df_gymbook))"

section \<open>Renaming and converting the GymBook columns\<close>































section \<open>Training volume\<close>

text \<open>
  \<^verbatim>\<open>(group["Repetitions"] * group["Weight"]).sum()\<close> on the rows of one group. Both
  columns hold numbers, read here as real numbers, or are missing (\<^verbatim>\<open>NaN\<close>). The product
  of two series is taken row by row and is missing where a factor is missing;
  \<^verbatim>\<open>sum()\<close> skips the missing values.
\<close>

definition mul_series :: "real option list \<Rightarrow> real option list \<Rightarrow> real option list" where
  "mul_series xs ys =
     map (\<lambda>(x, y). case (x, y) of (Some a, Some b) \<Rightarrow> Some (a * b) | _ \<Rightarrow> None) (zip xs ys)"

definition sum_skipna :: "real option list \<Rightarrow> real" where
  "sum_skipna xs = sum_list (map (\<lambda>x. case x of None \<Rightarrow> 0 | Some a \<Rightarrow> a) xs)"

definition calculate_volumne :: "'a workout_set_scheme list \<Rightarrow> real" where
  "calculate_volumne grp = sum_skipna (mul_series (map Repetitions grp) (map Weight grp))"

text \<open>The volume of one set: repetitions times weight, and nothing when one is missing.\<close>

definition set_volume :: "'a workout_set_scheme \<Rightarrow> real" where
  "set_volume s = (case (Repetitions s, Weight s) of (Some r, Some w) \<Rightarrow> r * w | _ \<Rightarrow> 0)"

section \<open>Properties of singularize\<close>

text \<open>
  C3. A name containing \<^verbatim>\<open>Lunges\<close> should be mapped to the form ending in \<^verbatim>\<open>Lunge\<close>.
  The code replaces \<^verbatim>\<open>Lung\<close> by \<^verbatim>\<open>Lunge\<close> in the plural name itself, not in the name
  without its final \<^verbatim>\<open>es\<close>, so the set \<^verbatim>\<open>{"Lunges"}\<close> yields the dictionary
  \<^verbatim>\<open>{"Lunges": "Lungees"}\<close>, in either iteration order of the exceptions.
\<close>

theorem singularize_Lunges:
  "singularize [''Lunges''] = [(''Lunges'', ''Lungees'')]
   \<and> singularize_in [''Lunges'', ''Raises''] [''Lunges''] = [(''Lunges'', ''Lungees'')]
   \<and> singularize_in [''Raises'', ''Lunges''] [''Lunges''] = [(''Lunges'', ''Lungees'')]"
  by (simp add: singularize_def singularize_in_def keep_e_def dict_of_def apply_exception_def
      slice_from_neg_def slice_to_neg_def str_replace.simps)

section \<open>Properties of fix_linebreaks\<close>

lemma fix_loop_append:
  "fix_loop fixed_lines reader = Inr fixed_lines' \<Longrightarrow>
   fix_loop fixed_lines (reader @ later_rows) = fix_loop fixed_lines' later_rows"
  by (induction fixed_lines reader rule: fix_loop.induct) (auto split: sum.splits if_splits)

lemma match_date_append: "match_date s \<Longrightarrow> match_date (s @ t)"
  by (auto simp: match_date_def nth_append)

lemma join_into_last_eq:
  "join_into_last fixed_lines l = Inr fixed_lines' \<longleftrightarrow>
   fixed_lines \<noteq> [] \<and> last fixed_lines \<noteq> [] \<and> l \<noteq> [] \<and>
   fixed_lines' = butlast fixed_lines @ [merged_row (last fixed_lines) l]"
  by (auto simp: join_into_last_def merged_row_def slice_to_neg_def butlast_conv_take Let_def)

lemma merged_row_nonempty: "merged_row k l \<noteq> []"
  by (simp add: merged_row_def)

lemma hd_merged_row:
  "k \<noteq> [] \<Longrightarrow> hd (merged_row k l) = (if tl k = [] then hd k @ ''. '' @ hd l else hd k)"
  by (cases k) (auto simp: merged_row_def)

lemma date_row_merged: "date_row k \<Longrightarrow> date_row (merged_row k l)"
  using match_date_append by (auto simp: date_row_def hd_merged_row merged_row_nonempty)

lemma kept_ok_snoc: "kept_ok fl \<Longrightarrow> date_row r \<Longrightarrow> kept_ok (fl @ [r])"
  by (cases fl) (auto simp: kept_ok_def)

lemma kept_ok_merge:
  assumes "kept_ok fl" shows "kept_ok (butlast fl @ [merged_row (last fl) l])"
proof (cases "tl fl = []")
  case True
  with assms have "butlast fl = []" by (cases fl) (auto simp: kept_ok_def)
  then show ?thesis by (simp add: kept_ok_def)
next
  case False
  with assms obtain h t where fl: "fl = h # t" "t \<noteq> []" by (cases fl) (auto simp: kept_ok_def)
  with assms have "\<forall>row \<in> set t. date_row row" by (simp add: kept_ok_def)
  then have "date_row (last t)" "\<forall>row \<in> set (butlast t). date_row row"
    using fl(2) by (auto dest: in_set_butlastD)
  then show ?thesis using fl by (auto simp: kept_ok_def date_row_merged)
qed


lemma fix_loop_kept_ok:
  "fix_loop fixed_lines reader = Inr fixed_lines' \<Longrightarrow> kept_ok fixed_lines \<Longrightarrow> kept_ok fixed_lines'"
proof (induction fixed_lines reader rule: fix_loop.induct)
  case (3 fixed_lines next_line reader)
  then show ?case
    by (auto split: sum.splits simp: join_into_last_eq kept_ok_merge)
next
  case (4 fixed_lines field cells reader)
  show ?case
  proof (cases "match_date field")
    case True
    then have "kept_ok (fixed_lines @ [field # cells])"
      using "4.prems"(2) by (simp add: kept_ok_snoc date_row_def)
    then show ?thesis using 4 True by simp
  next
    case False
    then show ?thesis using 4
      by (auto split: sum.splits simp: join_into_last_eq kept_ok_merge)
  qed
qed auto

lemma fix_loop_prefix:
  "fix_loop fixed_lines reader = Inr fixed_lines' \<Longrightarrow> fixed_lines \<noteq> [] \<Longrightarrow>
   length fixed_lines \<le> length fixed_lines' \<and> take (length fixed_lines - 1) fixed_lines' = butlast fixed_lines"
proof (induction fixed_lines reader rule: fix_loop.induct)
  case (3 fixed_lines next_line reader)
  then show ?case
    by (auto split: sum.splits simp: join_into_last_eq)
next
  case (4 fixed_lines field cells reader)
  show ?case
  proof (cases "match_date field")
    case True
    with 4 have "length (fixed_lines @ [field # cells]) \<le> length fixed_lines'"
      and "take (length fixed_lines) fixed_lines' = fixed_lines" by auto
    then show ?thesis
      by (metis (no_types, lifting) Suc_leD butlast_conv_take length_append_singleton take_take min.absorb1 diff_le_self)
  next
    case False
    then show ?thesis using 4
      by (auto split: sum.splits simp: join_into_last_eq)
  qed
qed (auto simp: butlast_conv_take)

lemma fix_loop_nonempty_rows:
  "\<forall>row \<in> set fixed_lines \<union> set reader. row \<noteq> [] \<Longrightarrow> fixed_lines \<noteq> [] \<Longrightarrow>
   \<exists>fixed_lines'. fix_loop fixed_lines reader = Inr fixed_lines'"
proof (induction fixed_lines reader rule: fix_loop.induct)
  case (4 fixed_lines field cells reader)
  show ?case
  proof (cases "match_date field")
    case True
    then show ?thesis using 4 by auto
  next
    case False
    let ?fl = "butlast fixed_lines @ [merged_row (last fixed_lines) (field # cells)]"
    have j: "join_into_last fixed_lines (field # cells) = Inr ?fl"
      using 4 by (simp add: join_into_last_eq)
    have "\<forall>row \<in> set ?fl \<union> set reader. row \<noteq> []"
      using "4.prems" by (auto simp: merged_row_nonempty dest: in_set_butlastD)
    then show ?thesis using "4.IH"(1)[OF _ j] False j by simp
  qed
qed auto



lemma butlast_merged_row: "butlast (merged_row k l) = butlast k @ butlast ((last k @ ''. '' @ hd l) # tl l)"
  by (simp add: merged_row_def butlast_append)

lemma hd_replace_last:
  "fl \<noteq> [] \<Longrightarrow> hd (butlast fl @ [m]) = (if tl fl = [] then m else hd fl)"
  by (cases fl) auto

lemma fix_loop_header:
  "fix_loop fixed_lines reader = Inr fixed_lines' \<Longrightarrow> fixed_lines \<noteq> [] \<Longrightarrow>
   prefix (butlast (hd fixed_lines)) (hd fixed_lines')"
proof (induction fixed_lines reader rule: fix_loop.induct)
  case (1 fixed_lines)
  then show ?case by (simp add: prefixeq_butlast)
next
  case (2 fixed_lines)
  then show ?case by simp
next
  case (3 fixed_lines next_line reader)
  let ?fl = "butlast fixed_lines @ [merged_row (last fixed_lines) next_line]"
  from 3 have j: "join_into_last fixed_lines next_line = Inr ?fl"
    and l: "fix_loop ?fl reader = Inr fixed_lines'"
    by (auto split: sum.splits simp: join_into_last_eq)
  have "prefix (butlast (hd ?fl)) (hd fixed_lines')"
    using "3.IH"[OF j l] by simp
  moreover have "prefix (butlast (hd fixed_lines)) (butlast (hd ?fl))"
    using "3.prems"(2)
    by (cases fixed_lines) (auto simp: butlast_merged_row)
  ultimately show ?case by (rule prefix_order.trans[rotated])
next
  case (4 fixed_lines field cells reader)
  show ?case
  proof (cases "match_date field")
    case True
    then show ?thesis using 4 by (cases fixed_lines) auto
  next
    case False
    let ?fl = "butlast fixed_lines @ [merged_row (last fixed_lines) (field # cells)]"
    from 4 False have j: "join_into_last fixed_lines (field # cells) = Inr ?fl"
      and l: "fix_loop ?fl reader = Inr fixed_lines'"
      by (auto split: sum.splits simp: join_into_last_eq)
    have "prefix (butlast (hd ?fl)) (hd fixed_lines')"
      using "4.IH"(1)[OF False j l] by simp
    moreover have "prefix (butlast (hd fixed_lines)) (butlast (hd ?fl))"
      using "4.prems"(2)
      by (cases fixed_lines) (auto simp: butlast_merged_row)
    ultimately show ?thesis by (rule prefix_order.trans[rotated])
  qed
qed

lemma fix_loop_hd:
  assumes "fix_loop fixed_lines reader = Inr fixed_lines'" "2 \<le> length fixed_lines"
  shows "hd fixed_lines' = hd fixed_lines"
proof -
  from assms have ne: "fixed_lines \<noteq> []" by auto
  from fix_loop_prefix[OF assms(1) ne]
  have "length fixed_lines \<le> length fixed_lines'"
    "take (length fixed_lines - 1) fixed_lines' = butlast fixed_lines" by auto
  then have "hd (take (length fixed_lines - 1) fixed_lines') = hd (butlast fixed_lines)" by simp
  moreover have "hd (butlast fixed_lines) = hd fixed_lines"
    using assms(2) by (cases fixed_lines) auto
  moreover have "hd (take (length fixed_lines - 1) fixed_lines') = hd fixed_lines'"
    using assms(2) by (cases fixed_lines') (auto simp: take_Cons')
  ultimately show ?thesis by simp
qed

text \<open>
  The inputs on which \<^verbatim>\<open>fix_linebreaks\<close> returns. On a non-empty input without empty
  rows it returns. Whenever it returns: every row after the first is non-empty and its
  first field begins with a date; the fields of the header other than its last open the
  first row, and the first row is the header itself when the input is the header alone
  or the second row begins with a date, as in an export. Reading one more row after an
  input that returned appends a row that begins with a date, and merges
  (\<^const>\<open>merged_row\<close>) into the last kept row a non-empty row that does not; an empty
  row followed by a non-empty row merges that second row into the last kept row.
\<close>

theorem fix_linebreaks_merges:
  "(reader \<noteq> [] \<and> (\<forall>row \<in> set reader. row \<noteq> []) \<longrightarrow>
      (\<exists>fixed_lines. fix_linebreaks reader = Inr fixed_lines))
   \<and> (fix_linebreaks reader = Inr fixed_lines \<longrightarrow>
        reader \<noteq> [] \<and> fixed_lines \<noteq> []
        \<and> (\<forall>row \<in> set (tl fixed_lines). row \<noteq> [] \<and> match_date (hd row))
        \<and> prefix (butlast (hd reader)) (hd fixed_lines)
        \<and> (tl reader = [] \<or> date_row (hd (tl reader)) \<longrightarrow> hd fixed_lines = hd reader)
        \<and> (date_row date_line \<longrightarrow>
             fix_linebreaks (reader @ [date_line]) = Inr (fixed_lines @ [date_line]))
        \<and> (text_line \<noteq> [] \<and> \<not> match_date (hd text_line) \<and> last fixed_lines \<noteq> [] \<longrightarrow>
             fix_linebreaks (reader @ [text_line])
               = Inr (butlast fixed_lines @ [merged_row (last fixed_lines) text_line]))
        \<and> (next_line \<noteq> [] \<and> last fixed_lines \<noteq> [] \<longrightarrow>
             fix_linebreaks (reader @ [[], next_line])
               = Inr (butlast fixed_lines @ [merged_row (last fixed_lines) next_line])))"
proof (intro conjI impI)
  assume "reader \<noteq> [] \<and> (\<forall>row \<in> set reader. row \<noteq> [])"
  then obtain header rest where r: "reader = header # rest" "\<forall>row \<in> set (header # rest). row \<noteq> []"
    by (cases reader) auto
  then show "\<exists>fixed_lines. fix_linebreaks reader = Inr fixed_lines"
    using fix_loop_nonempty_rows[of "[header]" rest] by (simp add: fix_linebreaks_def)
next
  assume ret: "fix_linebreaks reader = Inr fixed_lines"
  then obtain header rest where r: "reader = header # rest"
    and loop: "fix_loop [header] rest = Inr fixed_lines"
    by (cases reader) (auto simp: fix_linebreaks_def)
  show "reader \<noteq> []" using r by simp
  have ok: "kept_ok fixed_lines"
    using fix_loop_kept_ok[OF loop] by (simp add: kept_ok_def)
  then show ne: "fixed_lines \<noteq> []" by (simp add: kept_ok_def)
  show "\<forall>row \<in> set (tl fixed_lines). row \<noteq> [] \<and> match_date (hd row)"
    using ok by (simp add: kept_ok_def date_row_def)
  show "prefix (butlast (hd reader)) (hd fixed_lines)"
    using fix_loop_header[OF loop] r by simp
  have ext: "fix_linebreaks (reader @ later_rows) = fix_loop fixed_lines later_rows" for later_rows
    using fix_loop_append[OF loop, of later_rows] r by (simp add: fix_linebreaks_def)
  { assume "date_row date_line"
    then obtain field cells where "date_line = field # cells" "match_date field"
      by (cases date_line) (auto simp: date_row_def)
    then show "fix_linebreaks (reader @ [date_line]) = Inr (fixed_lines @ [date_line])"
      by (simp add: ext) }
  { assume a: "text_line \<noteq> [] \<and> \<not> match_date (hd text_line) \<and> last fixed_lines \<noteq> []"
    then obtain field cells where l: "text_line = field # cells" "\<not> match_date field"
      by (cases text_line) auto
    have "join_into_last fixed_lines text_line
            = Inr (butlast fixed_lines @ [merged_row (last fixed_lines) text_line])"
      using a ne by (simp add: join_into_last_eq)
    then show "fix_linebreaks (reader @ [text_line])
                 = Inr (butlast fixed_lines @ [merged_row (last fixed_lines) text_line])"
      using l by (simp add: ext) }
  { assume a: "next_line \<noteq> [] \<and> last fixed_lines \<noteq> []"
    have "join_into_last fixed_lines next_line
            = Inr (butlast fixed_lines @ [merged_row (last fixed_lines) next_line])"
      using a ne by (simp add: join_into_last_eq)
    then show "fix_linebreaks (reader @ [[], next_line])
                 = Inr (butlast fixed_lines @ [merged_row (last fixed_lines) next_line])"
      by (simp add: ext) }
  { assume a: "tl reader = [] \<or> date_row (hd (tl reader))"
    show "hd fixed_lines = hd reader"
    proof (cases rest)
      case Nil
      then show ?thesis using loop r by simp
    next
      case (Cons row rest')
      with a r have "date_row row" by simp
      then obtain field cells where "row = field # cells" "match_date field"
        by (cases row) (auto simp: date_row_def)
      with loop Cons have "fix_loop ([header] @ [row]) rest' = Inr fixed_lines" by simp
      from fix_loop_hd[OF this] show ?thesis using r by simp
    qed }
qed


theorem fix_linebreaks_merges_witness:
  "fix_linebreaks [[''Date'', ''Comment''], [''2023-04-27'', ''bench'']]
     = Inr [[''Date'', ''Comment''], [''2023-04-27'', ''bench'']]
   \<and> fix_linebreaks [[''Date'', ''Comment''], [''2023-04-27'', ''bench''], [''2023-04-28'', ''squat'']]
     = Inr [[''Date'', ''Comment''], [''2023-04-27'', ''bench''], [''2023-04-28'', ''squat'']]
   \<and> fix_linebreaks [[''Date'', ''Comment''], [''2023-04-27'', ''bench''], [''felt heavy'', ''x'']]
     = Inr [[''Date'', ''Comment''], [''2023-04-27'', ''bench. felt heavy'', ''x'']]
   \<and> fix_linebreaks [[''Date'', ''Comment''], [''2023-04-27'', ''bench''], [], [''2023-04-28'', ''squat'']]
     = Inr [[''Date'', ''Comment''], [''2023-04-27'', ''bench. 2023-04-28'', ''squat'']]"
proof -
  let ?reader = "[[''Date'', ''Comment''], [''2023-04-27'', ''bench'']]"
  have ret: "fix_linebreaks ?reader = Inr ?reader"
    by (simp add: fix_linebreaks_def match_date_def re_digit_def)
  have d: "date_row [''2023-04-28'', ''squat'']"
    by (simp add: date_row_def match_date_def re_digit_def)
  have t: "\<not> match_date (hd [''felt heavy'', ''x''])"
    by (simp add: match_date_def re_digit_def)
  show ?thesis
    using fix_linebreaks_merges [of ?reader ?reader "[''2023-04-28'', ''squat'']"
        "[''felt heavy'', ''x'']" "[''2023-04-28'', ''squat'']"] ret d t
    by (simp add: merged_row_def)
qed

text \<open>
  C2. For rows read from an export the claim asks that every empty row and every row
  that does not begin with a date is merged into the kept row before it. The code does
  this for a single empty row inside a comment, taking the row after it as the
  continuation. It raises instead when a comment holds two line breaks in a row with
  nothing between them, so that two empty rows follow each other
  (\<^verbatim>\<open>next_line[0]\<close> on the second empty row, \<^verbatim>\<open>IndexError\<close>), and when the input ends
  with an empty row (\<^verbatim>\<open>next(reader)\<close>, \<^verbatim>\<open>StopIteration\<close>).
\<close>

theorem fix_linebreaks_blank_rows:
  "fix_linebreaks
     [[''Date'', ''Exercise Name'', ''Set Comment''],
      [''2023-04-27'', ''Barbell Squat'', ''slow''],
      [],
      [''paused'']]
   = Inr [[''Date'', ''Exercise Name'', ''Set Comment''],
          [''2023-04-27'', ''Barbell Squat'', ''slow. paused'']]
   \<and> fix_linebreaks
     [[''Date'', ''Exercise Name'', ''Set Comment''],
      [''2023-04-27'', ''Barbell Squat'', ''slow''],
      [],
      [],
      [''paused'']]
   = Inl IndexError
   \<and> fix_linebreaks
     [[''Date'', ''Exercise Name'', ''Set Comment''],
      [''2023-04-27'', ''Barbell Squat'', ''slow''],
      []]
   = Inl StopIteration"
  by (simp add: fix_linebreaks_def join_into_last_def slice_to_neg_def match_date_def re_digit_def)

section \<open>Properties of replace_comma_in_comments\<close>

lemma split_comma_nonempty: "split_comma s \<noteq> []"
  by (induction s) (auto simp: Let_def)

lemma join_split_comma: "join_comma (split_comma s) = s"
proof (induction s)
  case (Cons c cs)
  obtain p ps where sp: "split_comma cs = p # ps"
    using split_comma_nonempty[of cs] by (cases "split_comma cs") auto
  with Cons show ?case by (cases ps) (auto simp: Let_def)
qed simp

lemma length_split_comma: "length (split_comma s) = Suc (count_commas s)"
proof (induction s)
  case (Cons c cs)
  then show ?case using split_comma_nonempty[of cs]
    by (auto simp: Let_def count_commas_def)
qed (simp add: count_commas_def)

lemma comma_free_split: "comma_free (split_comma s)"
proof (induction s)
  case (Cons c cs)
  obtain p ps where sp: "split_comma cs = p # ps"
    using split_comma_nonempty[of cs] by (cases "split_comma cs") auto
  with Cons show ?case by (auto simp: Let_def comma_free_def)
qed (simp add: comma_free_def)

lemma split_comma_append:
  "CHR '','' \<notin> set p \<Longrightarrow> split_comma (p @ CHR '','' # s) = p # split_comma s"
  by (induction p) (auto simp: Let_def)

lemma split_comma_free: "CHR '','' \<notin> set p \<Longrightarrow> split_comma p = [p]"
  by (induction p) (auto simp: Let_def)

lemma split_join_comma:
  "parts \<noteq> [] \<Longrightarrow> comma_free parts \<Longrightarrow> split_comma (join_comma parts) = parts"
proof (induction parts rule: join_comma.induct)
  case (3 field v va)
  then show ?case by (simp add: comma_free_def split_comma_append)
qed (auto simp: comma_free_def split_comma_free)

lemma count_join_comma:
  assumes "parts \<noteq> []" "comma_free parts"
  shows "count_commas (join_comma parts) = length parts - 1"
proof -
  have "length (split_comma (join_comma parts)) = length parts"
    using assms by (simp add: split_join_comma)
  then show ?thesis by (simp add: length_split_comma)
qed

lemma merge_step_nonempty: "merge_step merged part \<noteq> []"
  by (simp add: merge_step_def)

lemma foldl_merge_step_nonempty: "merged \<noteq> [] \<Longrightarrow> foldl merge_step merged parts \<noteq> []"
  by (induction parts arbitrary: merged) (auto simp: merge_step_nonempty)

lemma comma_free_merge_step:
  "merged \<noteq> [] \<Longrightarrow> comma_free merged \<Longrightarrow> CHR '','' \<notin> set part \<Longrightarrow> comma_free (merge_step merged part)"
  by (auto simp: merge_step_def comma_free_def dest: in_set_butlastD)

lemma comma_free_Cons: "comma_free (part # parts) \<longleftrightarrow> CHR '','' \<notin> set part \<and> comma_free parts"
  by (simp add: comma_free_def)

lemma comma_free_append: "comma_free (xs @ ys) \<longleftrightarrow> comma_free xs \<and> comma_free ys"
  by (auto simp: comma_free_def)

lemma comma_free_foldl:
  "merged \<noteq> [] \<Longrightarrow> comma_free merged \<Longrightarrow> comma_free parts \<Longrightarrow>
   comma_free (foldl merge_step merged parts)"
proof (induction parts arbitrary: merged)
  case (Cons a parts)
  from Cons.prems have a: "CHR '','' \<notin> set a" and ps: "comma_free parts"
    by (simp_all add: comma_free_Cons)
  have "comma_free (merge_step merged a)"
    using Cons.prems(1,2) a by (rule comma_free_merge_step)
  from Cons.IH[OF merge_step_nonempty this ps] show ?case by simp
qed simp

lemma space_not_digit: "\<not> isdigit (CHR '' '')"
  by (simp add: isdigit_def re_digit_def)

lemma starts_with_space_not_digit: "starts_with_space part \<Longrightarrow> \<not> starts_with_digit part"
  using space_not_digit by (auto simp: starts_with_space_def starts_with_digit_def)




lemma fix_parts_Cons:
  "fix_parts fixed_parts (part # comment_parts) =
     (if starts_with_space part then
        (case append_to_last fixed_parts ('';'' @ part) of
           Inl e \<Rightarrow> Inl e
         | Inr fixed_parts' \<Rightarrow> fix_parts fixed_parts' comment_parts)
      else if starts_with_digit part then
        (if fixed_parts = [] \<or> last fixed_parts = [] then Inl IndexError
         else if isdigit (last (last fixed_parts)) then
           (case append_to_last fixed_parts (''.'' @ part) of
              Inl e \<Rightarrow> Inl e
            | Inr fixed_parts' \<Rightarrow> fix_parts fixed_parts' comment_parts)
         else fix_parts (fixed_parts @ [part]) comment_parts)
      else fix_parts (fixed_parts @ [part]) comment_parts)"
  by (simp add: starts_with_space_def starts_with_digit_def)

lemma fix_parts_step:
  assumes "fixed_parts \<noteq> []"
  shows "fix_parts fixed_parts (part # comment_parts) =
     (if starts_with_digit part \<and> last fixed_parts = [] then Inl IndexError
      else fix_parts (merge_step fixed_parts part) comment_parts)"
proof (cases "starts_with_space part")
  case True
  then show ?thesis
    using assms starts_with_space_not_digit[OF True]
    by (simp add: fix_parts_Cons merge_step_def append_to_last_def del: fix_parts.simps)
next
  case False
  then show ?thesis
    using assms
    by (simp add: fix_parts_Cons merge_step_def append_to_last_def ends_with_digit_def
        del: fix_parts.simps)
qed

lemma fix_parts_eq:
  "fixed_parts \<noteq> [] \<Longrightarrow>
   fix_parts fixed_parts comment_parts =
     (if digit_after_empty fixed_parts comment_parts then Inl IndexError
      else Inr (foldl merge_step fixed_parts comment_parts))"
proof (induction comment_parts arbitrary: fixed_parts)
  case (Cons part comment_parts)
  have ne: "merge_step fixed_parts part \<noteq> []" by (rule merge_step_nonempty)
  show ?case
    using Cons.IH[OF ne] Cons.prems
    by (simp add: fix_parts_step del: fix_parts.simps)
qed simp


lemma comment_parts_empty:
  "comment_parts_of cells = [] \<longleftrightarrow> count_commas (join_comma cells) < 16"
  by (auto simp: comment_parts_of_def slice_to_neg_def length_split_comma)

lemma comma_free_subset: "set xs \<subseteq> set ys \<Longrightarrow> comma_free ys \<Longrightarrow> comma_free xs"
  by (auto simp: comma_free_def)

lemma comma_free_merge_comment_parts:
  assumes "comma_free comment_parts" "comment_parts \<noteq> []"
  shows "comma_free (merge_comment_parts comment_parts)"
proof -
  from assms obtain p ps where cp: "comment_parts = p # ps" by (cases comment_parts) auto
  with assms(1) have "comma_free [p]" "comma_free ps" by (simp_all add: comma_free_Cons comma_free_def)
  then show ?thesis
    using comma_free_foldl[of "[p]" ps] cp by (simp add: merge_comment_parts_def)
qed

lemma merge_comment_parts_nonempty: "merge_comment_parts comment_parts \<noteq> []"
  by (simp add: merge_comment_parts_def foldl_merge_step_nonempty)

lemma rebuilt_line:
  assumes "16 \<le> count_commas (join_comma cells)"
  shows "split_comma (join_comma (take 14 (split_comma (join_comma cells))
            @ merge_comment_parts (comment_parts_of cells)
            @ slice_from_neg 2 (split_comma (join_comma cells))))
         = take 14 (split_comma (join_comma cells))
            @ merge_comment_parts (comment_parts_of cells)
            @ slice_from_neg 2 (split_comma (join_comma cells))"
    (is "split_comma (join_comma ?new) = ?new")
proof -
  let ?parts = "split_comma (join_comma cells)"
  have cf: "comma_free ?parts" by (rule comma_free_split)
  have "comma_free (take 14 ?parts)"
    using cf by (rule comma_free_subset[OF set_take_subset])
  moreover have "comma_free (slice_from_neg 2 ?parts)"
    unfolding slice_from_neg_def using cf by (rule comma_free_subset[OF set_drop_subset])
  moreover have "comma_free (comment_parts_of cells)"
    unfolding comment_parts_of_def slice_to_neg_def
    using cf by (rule comma_free_subset[OF subset_trans[OF set_drop_subset set_take_subset]])
  then have "comma_free (merge_comment_parts (comment_parts_of cells))"
    using assms by (intro comma_free_merge_comment_parts) (simp_all add: comment_parts_empty)
  ultimately have "comma_free ?new" by (simp add: comma_free_append)
  moreover have "?new \<noteq> []" using merge_comment_parts_nonempty by simp
  ultimately show ?thesis by (simp add: split_join_comma)
qed

lemma length_rebuilt_line:
  assumes "16 \<le> count_commas (join_comma cells)"
  shows "count_commas (join_comma (take 14 (split_comma (join_comma cells))
            @ merge_comment_parts (comment_parts_of cells)
            @ slice_from_neg 2 (split_comma (join_comma cells))))
         = 15 + length (merge_comment_parts (comment_parts_of cells))"
proof -
  have "Suc (count_commas (join_comma (take 14 (split_comma (join_comma cells))
            @ merge_comment_parts (comment_parts_of cells)
            @ slice_from_neg 2 (split_comma (join_comma cells)))))
        = length (take 14 (split_comma (join_comma cells))
            @ merge_comment_parts (comment_parts_of cells)
            @ slice_from_neg 2 (split_comma (join_comma cells)))"
    using rebuilt_line[OF assms] length_split_comma by metis
  also have "\<dots> = 16 + length (merge_comment_parts (comment_parts_of cells))"
    using assms by (simp add: slice_from_neg_def length_split_comma)
  finally show ?thesis by simp
qed

lemma fix_line_eq:
  "fix_line column_count cells =
     (if count_commas (join_comma cells) \<le> column_count
        then Inr (split_comma (join_comma cells))
      else if count_commas (join_comma cells) < 16
              \<or> digit_after_empty [hd (comment_parts_of cells)] (tl (comment_parts_of cells))
        then Inl IndexError
      else if 2 < length (merge_comment_parts (comment_parts_of cells)) then Inl ValueError
      else Inr (take 14 (split_comma (join_comma cells))
                @ merge_comment_parts (comment_parts_of cells)
                @ slice_from_neg 2 (split_comma (join_comma cells))))"
proof (cases "count_commas (join_comma cells) \<le> column_count")
  case True
  then show ?thesis by (simp add: fix_line_def)
next
  case False
  note long = this
  show ?thesis
  proof (cases "count_commas (join_comma cells) < 16")
    case True
    then have "comment_parts_of cells = []" by (simp add: comment_parts_empty)
    then show ?thesis using long True
      by (simp add: fix_line_def comment_parts_of_def)
  next
    case False
    then have ne: "comment_parts_of cells \<noteq> []" by (simp add: comment_parts_empty)
    have fp: "fix_parts [hd (comment_parts_of cells)] (tl (comment_parts_of cells)) =
        (if digit_after_empty [hd (comment_parts_of cells)] (tl (comment_parts_of cells))
         then Inl IndexError else Inr (merge_comment_parts (comment_parts_of cells)))"
      by (simp add: fix_parts_eq merge_comment_parts_def)
    have rb: "16 \<le> count_commas (join_comma cells)" using False by simp
    have "fix_line column_count cells =
        (case fix_parts [hd (comment_parts_of cells)] (tl (comment_parts_of cells)) of
           Inl e \<Rightarrow> Inl e
         | Inr fixed_parts \<Rightarrow>
             if length fixed_parts > 2 then Inl ValueError
             else Inr (split_comma (join_comma (take 14 (split_comma (join_comma cells))
                    @ fixed_parts @ slice_from_neg 2 (split_comma (join_comma cells))))))"
      using long ne by (simp add: fix_line_def comment_parts_of_def Let_def)
    then show ?thesis
      using long False by (simp add: fp rebuilt_line[OF rb])
  qed
qed

lemma fix_lines_Inr:
  "fix_lines c acc rows = Inr out \<longleftrightarrow>
   (\<exists>ls. list_all2 (\<lambda>row l. fix_line c row = Inr l) rows ls \<and> out = acc @ ls)"
proof (induction rows arbitrary: acc)
  case (Cons row rows)
  show ?case
  proof (cases "fix_line c row")
    case (Inl e)
    then show ?thesis by (auto simp: list_all2_Cons1)
  next
    case (Inr l)
    then show ?thesis using Cons.IH[of "acc @ [l]"] by (auto simp: list_all2_Cons1)
  qed
qed auto

lemma fix_line_cases:
  "fix_line c row = Inl IndexError \<or> fix_line c row = Inl ValueError \<or> (\<exists>l. fix_line c row = Inr l)"
  by (simp add: fix_line_eq[of c row])

lemma fix_lines_ValueError:
  assumes "\<forall>row \<in> set rows. fix_line c row \<noteq> Inl IndexError"
  shows "(fix_lines c acc rows = Inl ValueError \<longleftrightarrow> (\<exists>row \<in> set rows. fix_line c row = Inl ValueError))
       \<and> (fix_lines c acc rows \<noteq> Inl ValueError \<longrightarrow> (\<exists>out. fix_lines c acc rows = Inr out))"
  using assms
proof (induction rows arbitrary: acc)
  case (Cons row rows)
  have cases: "fix_line c row = Inl ValueError \<or> (\<exists>l. fix_line c row = Inr l)"
    using Cons.prems fix_line_cases[of c row] by auto
  then show ?case
  proof
    assume "fix_line c row = Inl ValueError"
    then show ?thesis by simp
  next
    assume "\<exists>l. fix_line c row = Inr l"
    then obtain l where l: "fix_line c row = Inr l" by blast
    from Cons.prems have "\<forall>row \<in> set rows. fix_line c row \<noteq> Inl IndexError" by simp
    from Cons.IH[OF this, of "acc @ [l]"] l show ?thesis by simp
  qed
qed simp

text \<open>
  C9, as amended. Take a non-empty input in which every row with more commas than the
  header has at least 16 commas (17 fields, so that the slice \<^verbatim>\<open>[14:-2]\<close> is not empty)
  and in which the merging loop never tests a part starting with a digit against an
  empty merged part. On such an input \<^verbatim>\<open>replace_comma_in_comments\<close> raises
  \<^verbatim>\<open>ValueError\<close> exactly when, for some row with more commas than the header, the
  heuristic leaves more than two comment parts, and otherwise it returns a list of rows.
\<close>

theorem replace_comma_in_comments_raises:
  assumes "column_count = count_commas (join_comma header_line)"
    and "\<forall>line \<in> set rest. column_count < count_commas (join_comma line) \<longrightarrow>
           16 \<le> count_commas (join_comma line)
           \<and> \<not> digit_after_empty [hd (comment_parts_of line)] (tl (comment_parts_of line))"
  shows "(replace_comma_in_comments (header_line # rest) = Inl ValueError \<longleftrightarrow>
            (\<exists>line \<in> set rest. column_count < count_commas (join_comma line)
               \<and> 2 < length (merge_comment_parts (comment_parts_of line))))
         \<and> (replace_comma_in_comments (header_line # rest) \<noteq> Inl ValueError \<longrightarrow>
            (\<exists>fixed_lines. replace_comma_in_comments (header_line # rest) = Inr fixed_lines))"
proof -
  have no_index: "\<forall>line \<in> set rest. fix_line column_count line \<noteq> Inl IndexError"
  proof
    fix line assume "line \<in> set rest"
    with assms(2) show "fix_line column_count line \<noteq> Inl IndexError"
      by (auto simp: fix_line_eq[of column_count line])
  qed
  have value_error: "fix_line column_count line = Inl ValueError \<longleftrightarrow>
      column_count < count_commas (join_comma line)
      \<and> 2 < length (merge_comment_parts (comment_parts_of line))"
    if "line \<in> set rest" for line
    using assms(2) that by (auto simp: fix_line_eq[of column_count line])
  have unfold: "replace_comma_in_comments (header_line # rest)
                  = fix_lines column_count [header_line] rest"
    by (simp add: replace_comma_in_comments_def assms(1))
  show ?thesis
    unfolding unfold
    using fix_lines_ValueError[OF no_index, of "[header_line]"] value_error by blast
qed

theorem replace_comma_in_comments_raises_witness:
  "replace_comma_in_comments
     [replicate 18 ''h'',
      replicate 14 ''a'' @ [''slow'', '' paused'', ''good session'', ''x'', ''y''],
      replicate 14 ''a'' @ [''slow'', ''paused'', ''good session'', ''x'', ''y'']]
   = Inl ValueError"
proof -
  let ?header = "replicate 18 ''h''"
  let ?rest = "[replicate 14 ''a'' @ [''slow'', '' paused'', ''good session'', ''x'', ''y''],
      replicate 14 ''a'' @ [''slow'', ''paused'', ''good session'', ''x'', ''y'']]"
  have c: "(17::nat) = count_commas (join_comma ?header)" by code_simp
  have h: "\<forall>line \<in> set ?rest. 17 < count_commas (join_comma line) \<longrightarrow>
           16 \<le> count_commas (join_comma line)
           \<and> \<not> digit_after_empty [hd (comment_parts_of line)] (tl (comment_parts_of line))"
    by code_simp
  have r: "\<exists>line \<in> set ?rest. 17 < count_commas (join_comma line)
               \<and> 2 < length (merge_comment_parts (comment_parts_of line))"
    by code_simp
  show ?thesis
    using replace_comma_in_comments_raises [OF c h] r by blast
qed

text \<open>
  C9 as stated fails: a row with more commas than the header and fewer than 17 fields
  raises \<^verbatim>\<open>IndexError\<close> at \<^verbatim>\<open>comment_parts[0]\<close>, which is neither \<^verbatim>\<open>ValueError\<close> nor a
  normal return.
\<close>

theorem replace_comma_in_comments_short_row_counterexample:
  "replace_comma_in_comments [[''Date''], [''2023-04-27'', ''Bench Press'']] = Inl IndexError"
  by code_simp

text \<open>
  An input of the kind the amended statement above leaves out: under a header of 18
  columns, a row with an empty first comment whose second comment begins with a digit
  and holds a comma reaches
  \<^verbatim>\<open>fixed_parts[-1][-1]\<close> with \<^verbatim>\<open>fixed_parts[-1] == ""\<close> and raises \<^verbatim>\<open>IndexError\<close>, where
  the heuristic as described would start a new comment part.
\<close>

lemma replace_comma_in_comments_empty_comment:
  "replace_comma_in_comments
     [replicate 18 ''h'',
      replicate 14 ''a'' @ [[], ''3 min rest'', '' then drop set'', ''x'', ''y'']]
   = Inl IndexError
   \<and> merge_comment_parts [[], ''3 min rest'', '' then drop set'']
     = [[], ''3 min rest; then drop set'']"
  by code_simp

text \<open>
  C1, as amended. Whenever \<^verbatim>\<open>replace_comma_in_comments\<close> returns, it returns one row for
  each input row, the header first and unchanged, and every returned row, joined with
  commas, contains at most as many commas as the larger of 17 and the comma count of
  the joined header: at most as many as the header when the header has the 18 columns
  of the export. A row whose comma count does not exceed the header's is returned joined
  and split again; a row whose comma count exceeds it is returned as its first 14 parts,
  its parts from index 14 up to the last two merged by the heuristic
  (\<^const>\<open>merge_comment_parts\<close>) into at most two parts, and its last two parts.
\<close>

theorem replace_comma_in_comments_commas:
  assumes "replace_comma_in_comments rows = Inr fixed_lines"
  shows "length fixed_lines = length rows \<and> hd fixed_lines = hd rows
     \<and> (\<forall>fixed \<in> set fixed_lines.
           count_commas (join_comma fixed) \<le> max (count_commas (join_comma (hd rows))) 17)
     \<and> (\<forall>i. 0 < i \<and> i < length rows \<longrightarrow>
           fixed_lines ! i =
             (if count_commas (join_comma (hd rows)) < count_commas (join_comma (rows ! i))
              then take 14 (split_comma (join_comma (rows ! i)))
                   @ merge_comment_parts (comment_parts_of (rows ! i))
                   @ slice_from_neg 2 (split_comma (join_comma (rows ! i)))
              else split_comma (join_comma (rows ! i)))
           \<and> (count_commas (join_comma (hd rows)) < count_commas (join_comma (rows ! i)) \<longrightarrow>
                length (merge_comment_parts (comment_parts_of (rows ! i))) \<le> 2))"
proof -
  from assms obtain header_line rest where rows: "rows = header_line # rest"
    and loop: "fix_lines (count_commas (join_comma header_line)) [header_line] rest = Inr fixed_lines"
    by (cases rows) (auto simp: replace_comma_in_comments_def)
  let ?c = "count_commas (join_comma header_line)"
  from loop obtain ls where ls: "list_all2 (\<lambda>row l. fix_line ?c row = Inr l) rest ls"
    and out: "fixed_lines = header_line # ls"
    by (auto simp: fix_lines_Inr)
  have len: "length ls = length rest" using ls by (simp add: list_all2_lengthD)
  have nth: "fix_line ?c (rest ! j) = Inr (ls ! j)" if "j < length rest" for j
    using ls that by (simp add: list_all2_conv_all_nth)
  have row: "ls ! j =
             (if ?c < count_commas (join_comma (rest ! j))
              then take 14 (split_comma (join_comma (rest ! j)))
                   @ merge_comment_parts (comment_parts_of (rest ! j))
                   @ slice_from_neg 2 (split_comma (join_comma (rest ! j)))
              else split_comma (join_comma (rest ! j)))
           \<and> (?c < count_commas (join_comma (rest ! j)) \<longrightarrow>
                length (merge_comment_parts (comment_parts_of (rest ! j))) \<le> 2
                \<and> 16 \<le> count_commas (join_comma (rest ! j)))"
    if "j < length rest" for j
    using nth[OF that] by (auto simp: fix_line_eq[of ?c "rest ! j"] split: if_splits)
  have bound: "count_commas (join_comma (ls ! j)) \<le> max ?c 17" if "j < length rest" for j
  proof (cases "?c < count_commas (join_comma (rest ! j))")
    case True
    with row[OF that] have "count_commas (join_comma (ls ! j))
        = 15 + length (merge_comment_parts (comment_parts_of (rest ! j)))"
      and "length (merge_comment_parts (comment_parts_of (rest ! j))) \<le> 2"
      using length_rebuilt_line[of "rest ! j"] by simp_all
    then show ?thesis by linarith
  next
    case False
    with row[OF that] show ?thesis by (simp add: join_split_comma)
  qed
  have "\<forall>fixed \<in> set fixed_lines. count_commas (join_comma fixed) \<le> max ?c 17"
  proof
    fix fixed assume "fixed \<in> set fixed_lines"
    then consider "fixed = header_line" | j where "j < length ls" "fixed = ls ! j"
      using out by (auto simp: in_set_conv_nth)
    then show "count_commas (join_comma fixed) \<le> max ?c 17"
      using bound len by cases auto
  qed
  moreover have "\<forall>i. 0 < i \<and> i < length rows \<longrightarrow>
           fixed_lines ! i =
             (if count_commas (join_comma (hd rows)) < count_commas (join_comma (rows ! i))
              then take 14 (split_comma (join_comma (rows ! i)))
                   @ merge_comment_parts (comment_parts_of (rows ! i))
                   @ slice_from_neg 2 (split_comma (join_comma (rows ! i)))
              else split_comma (join_comma (rows ! i)))
           \<and> (count_commas (join_comma (hd rows)) < count_commas (join_comma (rows ! i)) \<longrightarrow>
                length (merge_comment_parts (comment_parts_of (rows ! i))) \<le> 2)"
  proof (intro allI impI)
    fix i assume "0 < i \<and> i < length rows"
    then obtain j where j: "i = Suc j" "j < length rest"
      using rows by (cases i) auto
    show "fixed_lines ! i =
             (if count_commas (join_comma (hd rows)) < count_commas (join_comma (rows ! i))
              then take 14 (split_comma (join_comma (rows ! i)))
                   @ merge_comment_parts (comment_parts_of (rows ! i))
                   @ slice_from_neg 2 (split_comma (join_comma (rows ! i)))
              else split_comma (join_comma (rows ! i)))
           \<and> (count_commas (join_comma (hd rows)) < count_commas (join_comma (rows ! i)) \<longrightarrow>
                length (merge_comment_parts (comment_parts_of (rows ! i))) \<le> 2)"
      using row[OF j(2)] by (simp add: j(1) rows out)
  qed
  ultimately show ?thesis using len by (simp add: rows out)
qed


theorem replace_comma_in_comments_commas_witness:
  "replace_comma_in_comments
     [replicate 18 ''h'',
      replicate 14 ''a'' @ [''slow'', '' paused'', ''good session'', ''x'', ''y'']]
   = Inr [replicate 18 ''h'',
      replicate 14 ''a'' @ [''slow; paused'', ''good session'', ''x'', ''y'']]
   \<and> count_commas (join_comma (replicate 18 ''h'')) \<le> 17
   \<and> count_commas (join_comma
         (replicate 14 ''a'' @ [''slow; paused'', ''good session'', ''x'', ''y''])) \<le> 17
   \<and> merge_comment_parts [''slow'', '' paused'', ''good session'']
        = [''slow; paused'', ''good session'']"
proof -
  let ?row = "replicate 14 ''a'' @ [''slow'', '' paused'', ''good session'', ''x'', ''y'']"
  let ?rows = "[replicate 18 ''h'', ?row]"
  let ?fixed = "[replicate 18 ''h'',
      replicate 14 ''a'' @ [''slow; paused'', ''good session'', ''x'', ''y'']]"
  have h: "replace_comma_in_comments ?rows = Inr ?fixed" by code_simp
  have c: "max (count_commas (join_comma (hd ?rows))) 17 = 17" by code_simp
  have i: "0 < (1::nat) \<and> 1 < length ?rows" by simp
  have long: "count_commas (join_comma (hd ?rows)) < count_commas (join_comma (?rows ! 1))"
    by code_simp
  have cp: "comment_parts_of (?rows ! 1) = [''slow'', '' paused'', ''good session'']"
    by code_simp
  note inst = replace_comma_in_comments_commas [OF h]
  from inst have "\<forall>fixed \<in> set ?fixed.
          count_commas (join_comma fixed) \<le> max (count_commas (join_comma (hd ?rows))) 17"
    by blast
  then have bound: "\<forall>fixed \<in> set ?fixed. count_commas (join_comma fixed) \<le> 17"
    unfolding c .
  from inst i long have "?fixed ! 1 = take 14 (split_comma (join_comma (?rows ! 1)))
                   @ merge_comment_parts (comment_parts_of (?rows ! 1))
                   @ slice_from_neg 2 (split_comma (join_comma (?rows ! 1)))"
    by presburger
  moreover have "take 14 (split_comma (join_comma (?rows ! 1))) = replicate 14 ''a''"
    by code_simp
  moreover have "slice_from_neg 2 (split_comma (join_comma (?rows ! 1))) = [''x'', ''y'']"
    by code_simp
  ultimately have "merge_comment_parts [''slow'', '' paused'', ''good session'']
        = [''slow; paused'', ''good session'']"
    unfolding cp by simp
  with h bound show ?thesis by simp
qed

text \<open>
  C1 as stated fails for a header with fewer than 17 commas: a row of 17 fields under a
  header of two columns is returned with its 16 commas.
\<close>

theorem replace_comma_in_comments_short_header_counterexample:
  "replace_comma_in_comments [[''Date'', ''Exercise Name''], replicate 17 ''a'']
     = Inr [[''Date'', ''Exercise Name''], replicate 17 ''a'']
   \<and> count_commas (join_comma (replicate 17 ''a'')) = 16
   \<and> count_commas (join_comma [''Date'', ''Exercise Name'']) = 1"
  by code_simp

section \<open>Properties of remove_skipped_sets\<close>

lemma unique_label_row:
  assumes "distinct (map fst df)" "(l, r) \<in> set df" "(l, r') \<in> set df"
  shows "r' = r"
  using assms by (meson eq_key_imp_eq_value)

lemma drop_labels_of_selected:
  assumes "distinct (map fst df)"
  shows "drop_labels (map fst (filter (\<lambda>(label, row). P row) df)) df
         = filter (\<lambda>(label, row). \<not> P row) df"
  unfolding drop_labels_def
proof (rule filter_cong[OF refl])
  fix x assume x: "x \<in> set df"
  obtain l r where lr: "x = (l, r)" by (cases x)
  have "l \<in> fst ` {y \<in> set df. case y of (label, row) \<Rightarrow> P row} \<longleftrightarrow> P r"
  proof
    assume "l \<in> fst ` {y \<in> set df. case y of (label, row) \<Rightarrow> P row}"
    then obtain r' where r': "(l, r') \<in> set df" "P r'" by auto
    from unique_label_row[OF assms _ r'(1), of r] x lr have "r' = r" by simp
    with r' show "P r" by simp
  next
    assume "P r"
    with x lr show "l \<in> fst ` {y \<in> set df. case y of (label, row) \<Rightarrow> P row}" by force
  qed
  then show "(case x of (label, row) \<Rightarrow> label \<notin> set (map fst (filter (\<lambda>(label, row). P row) df)))
        = (case x of (label, row) \<Rightarrow> \<not> P row)"
    by (simp add: lr)
qed

lemma drop_labels_nil: "drop_labels [] df = df"
  by (simp add: drop_labels_def)

text \<open>
  C10, as amended. On a frame whose index labels are unique, as in a frame just read
  from a file, \<^verbatim>\<open>remove_skipped_sets\<close> removes exactly the rows whose \<^verbatim>\<open>Ausgelassen\<close> is
  \<^verbatim>\<open>"Ja"\<close> and returns the other rows unchanged and in their order. A frame without
  such rows is returned as it is, whatever its index.
\<close>

theorem remove_skipped_sets_unique_index:
  "(distinct (map fst df) \<longrightarrow>
      remove_skipped_sets df = filter (\<lambda>(label, row). Ausgelassen row \<noteq> Some ''Ja'') df)
   \<and> ((\<forall>(label, row) \<in> set df. Ausgelassen row \<noteq> Some ''Ja'') \<longrightarrow> remove_skipped_sets df = df)"
proof (intro conjI impI)
  assume d: "distinct (map fst df)"
  show "remove_skipped_sets df = filter (\<lambda>(label, row). Ausgelassen row \<noteq> Some ''Ja'') df"
    unfolding remove_skipped_sets_def Let_def
    by (rule drop_labels_of_selected[OF d])
next
  assume a: "\<forall>(label, row) \<in> set df. Ausgelassen row \<noteq> Some ''Ja''"
  have "filter (\<lambda>(label, row). Ausgelassen row = Some ''Ja'') df = []"
    unfolding filter_empty_conv using a by blast
  then show "remove_skipped_sets df = df"
    unfolding remove_skipped_sets_def Let_def by (simp only: list.map drop_labels_nil)
qed

theorem remove_skipped_sets_unique_index_witness:
  "remove_skipped_sets
     [(0, \<lparr>Ausgelassen = Some ''Nein''\<rparr>), (1, \<lparr>Ausgelassen = Some ''Ja''\<rparr>), (2, \<lparr>Ausgelassen = None\<rparr>)]
   = [(0, \<lparr>Ausgelassen = Some ''Nein''\<rparr>), (2, \<lparr>Ausgelassen = None\<rparr>)]
   \<and> remove_skipped_sets [(0, \<lparr>Ausgelassen = Some ''Nein''\<rparr>), (1, \<lparr>Ausgelassen = None\<rparr>)]
   = [(0, \<lparr>Ausgelassen = Some ''Nein''\<rparr>), (1, \<lparr>Ausgelassen = None\<rparr>)]"
  using remove_skipped_sets_unique_index
      [of "[(0, \<lparr>Ausgelassen = Some ''Nein''\<rparr>), (1, \<lparr>Ausgelassen = Some ''Ja''\<rparr>), (2, \<lparr>Ausgelassen = None\<rparr>)]"]
    remove_skipped_sets_unique_index
      [of "[(0, \<lparr>Ausgelassen = Some ''Nein''\<rparr>), (1, \<lparr>Ausgelassen = None\<rparr>)]"]
  by simp

text \<open>
  C10 as stated fails on a frame with a repeated index label: dropping the label of a
  skipped row removes the row that shares it.
\<close>

theorem remove_skipped_sets_duplicate_label_counterexample:
  "remove_skipped_sets [(0, \<lparr>Ausgelassen = Some ''Ja''\<rparr>), (0, \<lparr>Ausgelassen = Some ''Nein''\<rparr>)] = []"
  by (simp add: remove_skipped_sets_def drop_labels_def)

section \<open>Properties of the alias replacement\<close>

text \<open>
  C4. Replacing with any dictionary, so with each of the four alias maps, does not
  increase the number of distinct names of the column, keeps its length, and leaves
  every name that is not a key as it is.
\<close>

theorem series_replace_nunique:
  "nunique (series_replace to_replace column) \<le> nunique column
   \<and> length (series_replace to_replace column) = length column
   \<and> (\<forall>i < length column. column ! i \<notin> fst ` set to_replace \<longrightarrow>
         series_replace to_replace column ! i = column ! i)"
proof (intro conjI allI impI)
  have "set (series_replace to_replace column) = replace_value to_replace ` set column"
    by (simp add: series_replace_def)
  then show "nunique (series_replace to_replace column) \<le> nunique column"
    unfolding nunique_def by (simp add: card_image_le)
  show "length (series_replace to_replace column) = length column"
    by (simp add: series_replace_def)
  fix i assume i: "i < length column" and k: "column ! i \<notin> fst ` set to_replace"
  from k have "map_of to_replace (column ! i) = None" by (simp add: map_of_eq_None_iff)
  then show "series_replace to_replace column ! i = column ! i"
    using i by (simp add: series_replace_def replace_value_def)
qed


theorem series_replace_nunique_witness:
  "nunique (series_replace map_rename_in_both [''Chest Dip'', ''Parallel Bar Dip'', ''Plank'']) = 2
   \<and> nunique [''Chest Dip'', ''Parallel Bar Dip'', ''Plank''] = 3
   \<and> series_replace map_rename_in_both [''Chest Dip'', ''Parallel Bar Dip'', ''Plank''] ! 2 = ''Plank''"
proof -
  let ?column = "[''Chest Dip'', ''Parallel Bar Dip'', ''Plank'']"
  have k: "?column ! 2 \<notin> fst ` set map_rename_in_both"
    by (simp add: map_rename_in_both_def dict_of_def)
  have n: "nunique ?column = 3" by (simp add: nunique_def)
  have r: "series_replace map_rename_in_both ?column = [''Dip'', ''Dip'', ''Plank'']"
    by (simp add: series_replace_def replace_value_def map_rename_in_both_def dict_of_def)
  have "nunique (series_replace map_rename_in_both ?column) = 2"
    unfolding r by (simp add: nunique_def)
  moreover from series_replace_nunique [of map_rename_in_both ?column] k
  have "series_replace map_rename_in_both ?column ! 2 = ?column ! 2" by simp
  ultimately show ?thesis using n by simp
qed

section \<open>Properties of calculate_volumne\<close>

text \<open>
  C8. \<^verbatim>\<open>calculate_volumne\<close> returns the sum over the sets of the group of repetitions
  times weight, a set with a missing value counting as nothing; when no value is
  missing this is the sum of the products repetitions times weight.
\<close>

theorem calculate_volumne_sum:
  "calculate_volumne grp = (\<Sum>s\<leftarrow>grp. set_volume s)
   \<and> ((\<forall>s \<in> set grp. Repetitions s \<noteq> None \<and> Weight s \<noteq> None) \<longrightarrow>
        calculate_volumne grp = (\<Sum>s\<leftarrow>grp. the (Repetitions s) * the (Weight s)))"
proof -
  have a: "calculate_volumne grp = (\<Sum>s\<leftarrow>grp. set_volume s)"
    unfolding calculate_volumne_def sum_skipna_def mul_series_def
    by (induction grp) (auto simp: set_volume_def split: option.splits)
  have "(\<Sum>s\<leftarrow>grp. set_volume s) = (\<Sum>s\<leftarrow>grp. the (Repetitions s) * the (Weight s))"
    if "\<forall>s \<in> set grp. Repetitions s \<noteq> None \<and> Weight s \<noteq> None"
    using that by (induction grp) (auto simp: set_volume_def)
  with a show ?thesis by simp
qed

theorem calculate_volumne_sum_witness:
  "calculate_volumne
     [\<lparr>Time = 100, Exercise_Name = ''Barbell Squat'', Repetitions = Some 5, Weight = Some 100\<rparr>,
      \<lparr>Time = 400, Exercise_Name = ''Barbell Squat'', Repetitions = Some 8, Weight = Some (165 / 2)\<rparr>]
   = 1160"
proof -
  let ?grp = "[\<lparr>Time = 100, Exercise_Name = ''Barbell Squat'', Repetitions = Some 5, Weight = Some 100\<rparr>,
      \<lparr>Time = 400, Exercise_Name = ''Barbell Squat'', Repetitions = Some 8, Weight = Some (165 / 2)\<rparr>]"
  have present: "\<forall>s \<in> set ?grp. Repetitions s \<noteq> None \<and> Weight s \<noteq> None"
    by (simp del: not_None_eq)
  from calculate_volumne_sum [of ?grp] present
  have "calculate_volumne ?grp = (\<Sum>s\<leftarrow>?grp. the (Repetitions s) * the (Weight s))"
    by blast
  then show ?thesis by simp
qed

section \<open>Properties of extend_gymbook_df\<close>

lemma cumcount_snoc:
  "cumcount by (df @ [x]) = cumcount by df @ [length (filter (\<lambda>s. by s = by x) df)]"
  by (simp add: cumcount_def nth_append)

lemma length_cumcount: "length (cumcount by df) = length df"
  by (simp add: cumcount_def)

lemma cumcount_groups:
  "map snd (filter (\<lambda>(r, k). by r = g) (zip df (map Suc (cumcount by df))))
   = [1..<Suc (length (filter (\<lambda>r. by r = g) df))]"
proof (induction df rule: rev_induct)
  case (snoc x df)
  then show ?case
    by (simp add: cumcount_snoc length_cumcount)
qed (simp add: cumcount_def)


lemma same_day_span:
  assumes "finite T" "a \<in> T" "\<forall>t \<in> T. date_of t = d"
  shows "timedelta_seconds (Max T - Min T) = Max T - Min T"
proof -
  have ne: "T \<noteq> {}" using assms(2) by auto
  have "Max T \<in> T" "Min T \<in> T" using assms(1) ne by simp_all
  then have "Max T div 86400 = d" "Min T div 86400 = d"
    using assms(3) by (auto simp: date_of_def)
  moreover have "Min T \<le> Max T" using assms(1) ne by simp
  ultimately have "0 \<le> Max T - Min T" "Max T - Min T < 86400" by linarith+
  then show ?thesis by (simp add: timedelta_seconds_def)
qed

lemma group_times:
  "set (map Time (filter (\<lambda>s. date_of (Time s) = date_of (Time r)) df)) = same_day_times df r"
  by (auto simp: same_day_times_def)

lemma session_duration_nth:
  assumes "i < length df"
  shows "map timedelta_seconds
           (groupby_transform (\<lambda>r. date_of (Time r)) Time (\<lambda>x. Max (set x) - Min (set x)) df) ! i
         = Max (same_day_times df (df ! i)) - Min (same_day_times df (df ! i))"
proof -
  let ?T = "same_day_times df (df ! i)"
  have "finite ?T" by (simp add: same_day_times_def)
  moreover have "Time (df ! i) \<in> ?T" using assms by (auto simp: same_day_times_def)
  moreover have "\<forall>t \<in> ?T. date_of t = date_of (Time (df ! i))"
    by (auto simp: same_day_times_def)
  ultimately have "timedelta_seconds (Max ?T - Min ?T) = Max ?T - Min ?T"
    by (rule same_day_span)
  then show ?thesis
    using assms by (simp add: groupby_transform_def group_times del: set_map)
qed

lemma length_session_columns: "length (session_columns df) = length df"
  by (simp add: session_columns_def groupby_transform_def cumcount_def)

lemma session_columns_nth:
  assumes "i < length df"
  shows "session_columns df ! i =
     \<lparr>set_row = df ! i,
      Session_Duration = Max (same_day_times df (df ! i)) - Min (same_day_times df (df ! i)),
      Set_Order = Suc (length (filter (\<lambda>s. date_of (Time s) = date_of (Time (df ! i))
                                      \<and> Exercise_Name s = Exercise_Name (df ! i)) (take i df)))\<rparr>"
proof -
  have "map (\<lambda>c. c + 1) (cumcount (\<lambda>r. (date_of (Time r), Exercise_Name r)) df) ! i
        = Suc (length (filter (\<lambda>s. date_of (Time s) = date_of (Time (df ! i))
                                      \<and> Exercise_Name s = Exercise_Name (df ! i)) (take i df)))"
    using assms by (simp add: cumcount_def)
  moreover have "length (groupby_transform (\<lambda>r. date_of (Time r)) Time (\<lambda>x. Max (set x) - Min (set x)) df)
      = length df" by (simp add: groupby_transform_def)
  ultimately show ?thesis
    using assms session_duration_nth[OF assms]
    by (simp add: session_columns_def Let_def length_cumcount)
qed

lemma orders_of_rows:
  assumes "length ds = length df" "length ks = length df"
  shows "map Set_Order (filter (\<lambda>out. Q (set_row out))
            (map (\<lambda>(r, d, k). \<lparr>set_row = r, Session_Duration = d, Set_Order = k\<rparr>) (zip df (zip ds ks))))
         = map snd (filter (\<lambda>(r, k). Q r) (zip df ks))"
  using assms
proof (induction df arbitrary: ds ks)
  case (Cons r df)
  then obtain d ds' k ks' where "ds = d # ds'" "ks = k # ks'"
    by (cases ds; cases ks) auto
  with Cons show ?case by simp
qed simp


lemma same_day_times_cong:
  "date_of (Time r) = date_of (Time r') \<Longrightarrow> same_day_times df r = same_day_times df r'"
  by (simp add: same_day_times_def)

lemma same_day_times_single:
  assumes "i < length df"
    and "\<forall>j < length df. date_of (Time (df ! j)) = date_of (Time (df ! i)) \<longrightarrow> j = i"
  shows "same_day_times df (df ! i) = {Time (df ! i)}"
proof -
  have "s = df ! i" if "s \<in> set df" "date_of (Time s) = date_of (Time (df ! i))" for s
  proof -
    from that(1) obtain j where "j < length df" "s = df ! j" by (auto simp: in_set_conv_nth)
    with assms(2) that(2) show ?thesis by auto
  qed
  moreover have "df ! i \<in> set df" using assms(1) by simp
  ultimately show ?thesis unfolding same_day_times_def by blast
qed

lemma session_columns_spec:
  "length (session_columns df) = length df
   \<and> (\<forall>i < length df.
         set_row (session_columns df ! i) = df ! i
         \<and> Session_Duration (session_columns df ! i)
             = Max (same_day_times df (df ! i)) - Min (same_day_times df (df ! i)))
   \<and> (\<forall>i < length df. \<forall>j < length df.
         date_of (Time (df ! i)) = date_of (Time (df ! j)) \<longrightarrow>
         Session_Duration (session_columns df ! i) = Session_Duration (session_columns df ! j))
   \<and> (\<forall>i < length df.
         (\<forall>j < length df. date_of (Time (df ! j)) = date_of (Time (df ! i)) \<longrightarrow> j = i) \<longrightarrow>
         Session_Duration (session_columns df ! i) = 0)
   \<and> (\<forall>d e. map Set_Order
                 (filter (\<lambda>out. date_of (Time (set_row out)) = d \<and> Exercise_Name (set_row out) = e)
                    (session_columns df))
               = [1..<Suc (length (filter (\<lambda>r. date_of (Time r) = d \<and> Exercise_Name r = e) df))])"
proof (intro conjI allI impI)
  show "length (session_columns df) = length df" by (rule length_session_columns)
next
  fix i assume "i < length df"
  then show "set_row (session_columns df ! i) = df ! i"
    and "Session_Duration (session_columns df ! i)
             = Max (same_day_times df (df ! i)) - Min (same_day_times df (df ! i))"
    by (simp_all add: session_columns_nth)
next
  fix i j assume "i < length df" "j < length df"
    "date_of (Time (df ! i)) = date_of (Time (df ! j))"
  then show "Session_Duration (session_columns df ! i) = Session_Duration (session_columns df ! j)"
    using same_day_times_cong[of "df ! i" "df ! j" df] by (simp add: session_columns_nth)
next
  fix i assume i: "i < length df"
    and "\<forall>j < length df. date_of (Time (df ! j)) = date_of (Time (df ! i)) \<longrightarrow> j = i"
  then have "same_day_times df (df ! i) = {Time (df ! i)}" by (rule same_day_times_single)
  then show "Session_Duration (session_columns df ! i) = 0"
    using i by (simp add: session_columns_nth)
next
  fix d e
  let ?by = "\<lambda>r. (date_of (Time r), Exercise_Name r)"
  let ?ds = "map timedelta_seconds
              (groupby_transform (\<lambda>r. date_of (Time r)) Time (\<lambda>x. Max (set x) - Min (set x)) df)"
  let ?ks = "map Suc (cumcount ?by df)"
  have out: "session_columns df
      = map (\<lambda>(r, d, k). \<lparr>set_row = r, Session_Duration = d, Set_Order = k\<rparr>) (zip df (zip ?ds ?ks))"
    by (simp add: session_columns_def)
  have "map Set_Order (filter (\<lambda>out. ?by (set_row out) = (d, e)) (session_columns df))
        = map snd (filter (\<lambda>(r, k). ?by r = (d, e)) (zip df ?ks))"
    unfolding out
    by (rule orders_of_rows) (simp_all add: groupby_transform_def length_cumcount)
  also have "\<dots> = [1..<Suc (length (filter (\<lambda>r. ?by r = (d, e)) df))]"
    by (rule cumcount_groups)
  finally show "map Set_Order
                 (filter (\<lambda>out. date_of (Time (set_row out)) = d \<and> Exercise_Name (set_row out) = e)
                    (session_columns df))
               = [1..<Suc (length (filter (\<lambda>r. date_of (Time r) = d \<and> Exercise_Name r = e) df))]"
    by simp
qed

text \<open>
  C6. On a frame with at least one row \<^verbatim>\<open>extend_gymbook_df\<close> returns, and on a frame
  without rows it raises. When it returns it keeps every row and gives it as
  \<^verbatim>\<open>Session Duration (s)\<close> the difference in seconds between the latest and the
  earliest set time on its calendar date: rows of one date share the value, and the only
  row of a date gets 0. The \<^verbatim>\<open>Set Order\<close> values of the rows of one date and one
  exercise name, read in row order, are 1, 2, ... up to the number of these rows.
\<close>

theorem extend_gymbook_df_columns:
  "(df \<noteq> [] \<longrightarrow> (\<exists>extended. extend_gymbook_df df = Inr extended))
   \<and> (extend_gymbook_df df = Inr extended \<longrightarrow>
        df \<noteq> []
      \<and> length extended = length df
      \<and> (\<forall>i < length df.
            set_row (extended ! i) = df ! i
            \<and> Session_Duration (extended ! i)
                = Max (same_day_times df (df ! i)) - Min (same_day_times df (df ! i)))
      \<and> (\<forall>i < length df. \<forall>j < length df.
            date_of (Time (df ! i)) = date_of (Time (df ! j)) \<longrightarrow>
            Session_Duration (extended ! i) = Session_Duration (extended ! j))
      \<and> (\<forall>i < length df.
            (\<forall>j < length df. date_of (Time (df ! j)) = date_of (Time (df ! i)) \<longrightarrow> j = i) \<longrightarrow>
            Session_Duration (extended ! i) = 0)
      \<and> (\<forall>d e. map Set_Order
                    (filter (\<lambda>out. date_of (Time (set_row out)) = d \<and> Exercise_Name (set_row out) = e)
                       extended)
                  = [1..<Suc (length (filter (\<lambda>r. date_of (Time r) = d \<and> Exercise_Name r = e) df))]))"
proof (intro conjI impI)
  assume "df \<noteq> []"
  then show "\<exists>extended. extend_gymbook_df df = Inr extended"
    by (simp add: extend_gymbook_df_def)
next
  assume ret: "extend_gymbook_df df = Inr extended"
  then show "df \<noteq> []" by (auto simp: extend_gymbook_df_def)
  from ret have out: "extended = session_columns df"
    by (simp add: extend_gymbook_df_def split: if_splits)
  note spec = session_columns_spec [of df]
  show "length extended = length df"
    unfolding out by (rule spec [THEN conjunct1])
  show "\<forall>i < length df.
            set_row (extended ! i) = df ! i
            \<and> Session_Duration (extended ! i)
                = Max (same_day_times df (df ! i)) - Min (same_day_times df (df ! i))"
    unfolding out by (rule spec [THEN conjunct2, THEN conjunct1])
  show "\<forall>i < length df. \<forall>j < length df.
            date_of (Time (df ! i)) = date_of (Time (df ! j)) \<longrightarrow>
            Session_Duration (extended ! i) = Session_Duration (extended ! j)"
    unfolding out by (rule spec [THEN conjunct2, THEN conjunct2, THEN conjunct1])
  show "\<forall>i < length df.
            (\<forall>j < length df. date_of (Time (df ! j)) = date_of (Time (df ! i)) \<longrightarrow> j = i) \<longrightarrow>
            Session_Duration (extended ! i) = 0"
    unfolding out by (rule spec [THEN conjunct2, THEN conjunct2, THEN conjunct2, THEN conjunct1])
  show "\<forall>d e. map Set_Order
                    (filter (\<lambda>out. date_of (Time (set_row out)) = d \<and> Exercise_Name (set_row out) = e)
                       extended)
                  = [1..<Suc (length (filter (\<lambda>r. date_of (Time r) = d \<and> Exercise_Name r = e) df))]"
    unfolding out
    by (rule spec [THEN conjunct2, THEN conjunct2, THEN conjunct2, THEN conjunct2])
qed

theorem extend_gymbook_df_columns_witness:
  "(\<exists>extended. extend_gymbook_df
      [\<lparr>Time = 100, Exercise_Name = ''Squat'', Repetitions = None, Weight = None\<rparr>,
       \<lparr>Time = 160, Exercise_Name = ''Dip'', Repetitions = None, Weight = None\<rparr>,
       \<lparr>Time = 90000, Exercise_Name = ''Squat'', Repetitions = None, Weight = None\<rparr>,
       \<lparr>Time = 220, Exercise_Name = ''Squat'', Repetitions = None, Weight = None\<rparr>] = Inr extended
     \<and> length extended = 4
     \<and> Session_Duration (extended ! 0) = 120
     \<and> Session_Duration (extended ! 3) = 120
     \<and> Session_Duration (extended ! 2) = 0
     \<and> map Set_Order
         (filter (\<lambda>out. date_of (Time (set_row out)) = 0 \<and> Exercise_Name (set_row out) = ''Squat'')
            extended) = [1, 2])
   \<and> extend_gymbook_df ([] :: workout_set list) = Inl AttributeError"
proof -
  let ?df = "[\<lparr>Time = 100, Exercise_Name = ''Squat'', Repetitions = None, Weight = None\<rparr>,
       \<lparr>Time = 160, Exercise_Name = ''Dip'', Repetitions = None, Weight = None\<rparr>,
       \<lparr>Time = 90000, Exercise_Name = ''Squat'', Repetitions = None, Weight = None\<rparr>,
       \<lparr>Time = 220, Exercise_Name = ''Squat'', Repetitions = None, Weight = None\<rparr>]"
  have "\<exists>extended. extend_gymbook_df ?df = Inr extended"
    by (rule extend_gymbook_df_columns [of ?df, THEN conjunct1, THEN mp]) simp
  then obtain extended where ret: "extend_gymbook_df ?df = Inr extended" ..
  note inst = extend_gymbook_df_columns [of ?df extended, THEN conjunct2, THEN mp, OF ret]
  note len = inst [THEN conjunct2, THEN conjunct1]
  note durations = inst [THEN conjunct2, THEN conjunct2, THEN conjunct1, rule_format]
  note shared = inst [THEN conjunct2, THEN conjunct2, THEN conjunct2, THEN conjunct1, rule_format]
  note single = inst [THEN conjunct2, THEN conjunct2, THEN conjunct2, THEN conjunct2, THEN conjunct1,
      THEN spec, THEN mp, THEN mp]
  note orders = inst [THEN conjunct2, THEN conjunct2, THEN conjunct2, THEN conjunct2, THEN conjunct2,
      rule_format]
  have t0: "same_day_times ?df (?df ! 0) = {100, 160, 220}"
    unfolding group_times[symmetric] by (auto simp: date_of_def)
  have d03: "date_of (Time (?df ! 0)) = date_of (Time (?df ! 3))" by (simp add: date_of_def)
  have alone: "\<forall>j < length ?df. date_of (Time (?df ! j)) = date_of (Time (?df ! 2)) \<longrightarrow> j = 2"
    by (simp add: date_of_def less_Suc_eq numeral_eq_Suc nth_Cons')
  have n: "length (filter (\<lambda>r. date_of (Time r) = 0 \<and> Exercise_Name r = ''Squat'') ?df) = 2"
    by (simp add: date_of_def)
  have l: "length extended = 4" using len by simp
  have "Session_Duration (extended ! 0)
      = Max (same_day_times ?df (?df ! 0)) - Min (same_day_times ?df (?df ! 0))"
    by (rule durations [of 0, THEN conjunct2]) simp
  then have a: "Session_Duration (extended ! 0) = 120"
    unfolding t0 by simp
  have "Session_Duration (extended ! 0) = Session_Duration (extended ! 3)"
    by (rule shared [of 0 3, OF _ _ d03]) simp_all
  with a have b: "Session_Duration (extended ! 3) = 120" by simp
  have c: "Session_Duration (extended ! 2) = 0"
    by (rule single [of 2, OF _ alone]) simp
  have d: "map Set_Order
         (filter (\<lambda>out. date_of (Time (set_row out)) = 0 \<and> Exercise_Name (set_row out) = ''Squat'')
            extended) = [1, 2]"
    unfolding orders [of 0 "''Squat''"] n by (simp add: upt_rec)
  have e: "extend_gymbook_df ([] :: workout_set list) = Inl AttributeError"
    by (simp add: extend_gymbook_df_def)
  have "\<exists>extended. extend_gymbook_df ?df = Inr extended
     \<and> length extended = 4
     \<and> Session_Duration (extended ! 0) = 120
     \<and> Session_Duration (extended ! 3) = 120
     \<and> Session_Duration (extended ! 2) = 0
     \<and> map Set_Order
         (filter (\<lambda>out. date_of (Time (set_row out)) = 0 \<and> Exercise_Name (set_row out) = ''Squat'')
            extended) = [1, 2]"
    by (rule exI [of _ extended]) (intro conjI ret l a b c d)
  then show ?thesis using e by (rule conjI)
qed

section \<open>Properties of the unified table\<close>

lemma Time_fillna_Weight: "Time (fillna_Weight row) = Time row"
  by (simp add: fillna_Weight_def)

lemma fillna_Weight_cases:
  "fillna_Weight row = (case Weight row of None \<Rightarrow> row\<lparr>Weight := Some 0\<rparr> | Some w \<Rightarrow> row)"
  by (cases "Weight row") (simp_all add: fillna_Weight_def)

lemma mset_unified_table:
  "mset (unified_table df_progression df_gymbook)
     = image_mset fillna_Weight (mset df_progression + mset df_gymbook)"
  by (simp add: unified_table_def sort_values_descending_def pd_concat_def)

text \<open>
  C5. The unified table holds every row of the two frames exactly once and no other row,
  where a row with a recorded \<^verbatim>\<open>Weight\<close> is the row itself and a row with a missing
  \<^verbatim>\<open>Weight\<close> is the row with \<^verbatim>\<open>Weight\<close> 0 and every other column as it was; so when
  no \<^verbatim>\<open>Weight\<close> of the two frames is missing, the rows of the table are those of the
  two frames. The table is ordered by \<^verbatim>\<open>Time\<close>, latest first, and no \<^verbatim>\<open>Weight\<close> in it
  is missing.
\<close>

theorem unified_table_rows:
  "mset (unified_table df_progression df_gymbook)
     = image_mset (\<lambda>row. case Weight row of None \<Rightarrow> row\<lparr>Weight := Some 0\<rparr> | Some w \<Rightarrow> row)
         (mset df_progression + mset df_gymbook)
   \<and> ((\<forall>row \<in> set df_progression \<union> set df_gymbook. Weight row \<noteq> None) \<longrightarrow>
        mset (unified_table df_progression df_gymbook) = mset df_progression + mset df_gymbook)
   \<and> length (unified_table df_progression df_gymbook) = length df_progression + length df_gymbook
   \<and> sorted_wrt (\<lambda>earlier later. Time earlier \<ge> Time later)
        (unified_table df_progression df_gymbook)
   \<and> None \<notin> Weight ` set (unified_table df_progression df_gymbook)"
proof (intro conjI impI)
  have fill: "fillna_Weight
      = (\<lambda>row. case Weight row of None \<Rightarrow> row\<lparr>Weight := Some 0\<rparr> | Some w \<Rightarrow> row)"
    by (rule ext) (rule fillna_Weight_cases)
  show "mset (unified_table df_progression df_gymbook)
     = image_mset (\<lambda>row. case Weight row of None \<Rightarrow> row\<lparr>Weight := Some 0\<rparr> | Some w \<Rightarrow> row)
         (mset df_progression + mset df_gymbook)"
    unfolding mset_unified_table fill ..
  show "length (unified_table df_progression df_gymbook) = length df_progression + length df_gymbook"
    by (simp add: unified_table_def sort_values_descending_def pd_concat_def)
  have "sorted (map (\<lambda>row. - Time row) (sort_key (\<lambda>row. - Time row) (df_progression @ df_gymbook)))"
    by (rule sorted_sort_key)
  then have "sorted_wrt (\<lambda>earlier later. Time earlier \<ge> Time later)
     (sort_key (\<lambda>row. - Time row) (df_progression @ df_gymbook))"
    by (simp add: sorted_map)
  then show "sorted_wrt (\<lambda>earlier later. Time earlier \<ge> Time later)
        (unified_table df_progression df_gymbook)"
    by (simp add: unified_table_def sort_values_descending_def pd_concat_def sorted_wrt_map
        Time_fillna_Weight)
  show "None \<notin> Weight ` set (unified_table df_progression df_gymbook)"
    by (auto simp: unified_table_def fillna_Weight_def)
next
  assume recorded: "\<forall>row \<in> set df_progression \<union> set df_gymbook. Weight row \<noteq> None"
  have "image_mset fillna_Weight (mset (df_progression @ df_gymbook))
      = image_mset (\<lambda>row. row) (mset (df_progression @ df_gymbook))"
  proof (rule image_mset_cong)
    fix row assume "row \<in># mset (df_progression @ df_gymbook)"
    then have "Weight row \<noteq> None" using recorded by auto
    then show "fillna_Weight row = row" by (auto simp: fillna_Weight_cases)
  qed
  then show "mset (unified_table df_progression df_gymbook) = mset df_progression + mset df_gymbook"
    unfolding mset_unified_table by simp
qed

theorem unified_table_rows_witness:
  "mset (unified_table
      [\<lparr>Time = 100, Exercise_Name = ''Squat'', Repetitions = Some 5, Weight = Some 80\<rparr>,
       \<lparr>Time = 300, Exercise_Name = ''Squat'', Repetitions = Some 5, Weight = Some (165 / 2)\<rparr>]
      [\<lparr>Time = 200, Exercise_Name = ''Dip'', Repetitions = Some 8, Weight = Some 10\<rparr>])
     = {#\<lparr>Time = 100, Exercise_Name = ''Squat'', Repetitions = Some 5, Weight = Some 80\<rparr>,
         \<lparr>Time = 300, Exercise_Name = ''Squat'', Repetitions = Some 5, Weight = Some (165 / 2)\<rparr>,
         \<lparr>Time = 200, Exercise_Name = ''Dip'', Repetitions = Some 8, Weight = Some 10\<rparr>#}
   \<and> unified_table
      [\<lparr>Time = 100, Exercise_Name = ''Squat'', Repetitions = Some 5, Weight = Some 80\<rparr>,
       \<lparr>Time = 300, Exercise_Name = ''Squat'', Repetitions = Some 5, Weight = Some (165 / 2)\<rparr>]
      [\<lparr>Time = 200, Exercise_Name = ''Dip'', Repetitions = Some 8, Weight = Some 10\<rparr>]
     = [\<lparr>Time = 300, Exercise_Name = ''Squat'', Repetitions = Some 5, Weight = Some (165 / 2)\<rparr>,
        \<lparr>Time = 200, Exercise_Name = ''Dip'', Repetitions = Some 8, Weight = Some 10\<rparr>,
        \<lparr>Time = 100, Exercise_Name = ''Squat'', Repetitions = Some 5, Weight = Some 80\<rparr>]
   \<and> mset (unified_table
      [\<lparr>Time = 100, Exercise_Name = ''Squat'', Repetitions = Some 5, Weight = Some 80\<rparr>]
      [\<lparr>Time = 200, Exercise_Name = ''Pull Up'', Repetitions = Some 8, Weight = None\<rparr>])
     = {#\<lparr>Time = 100, Exercise_Name = ''Squat'', Repetitions = Some 5, Weight = Some 80\<rparr>,
         \<lparr>Time = 200, Exercise_Name = ''Pull Up'', Repetitions = Some 8, Weight = Some 0\<rparr>#}"
proof -
  let ?p = "[\<lparr>Time = 100, Exercise_Name = ''Squat'', Repetitions = Some 5, Weight = Some 80\<rparr>,
       \<lparr>Time = 300, Exercise_Name = ''Squat'', Repetitions = Some 5, Weight = Some (165 / 2)\<rparr>]"
  let ?g = "[\<lparr>Time = 200, Exercise_Name = ''Dip'', Repetitions = Some 8, Weight = Some 10\<rparr>]"
  let ?p' = "[\<lparr>Time = 100, Exercise_Name = ''Squat'', Repetitions = Some 5, Weight = Some 80\<rparr>]"
  let ?g' = "[\<lparr>Time = 200, Exercise_Name = ''Pull Up'', Repetitions = Some 8, Weight = None\<rparr>]"
  have recorded: "\<forall>row \<in> set ?p \<union> set ?g. Weight row \<noteq> None"
    by (simp del: not_None_eq)
  have "mset (unified_table ?p ?g) = mset ?p + mset ?g"
    by (rule unified_table_rows [of ?p ?g, THEN conjunct2, THEN conjunct1, THEN mp, OF recorded])
  then have a: "mset (unified_table ?p ?g)
     = {#\<lparr>Time = 100, Exercise_Name = ''Squat'', Repetitions = Some 5, Weight = Some 80\<rparr>,
         \<lparr>Time = 300, Exercise_Name = ''Squat'', Repetitions = Some 5, Weight = Some (165 / 2)\<rparr>,
         \<lparr>Time = 200, Exercise_Name = ''Dip'', Repetitions = Some 8, Weight = Some 10\<rparr>#}"
    by simp
  have b: "unified_table ?p ?g
     = [\<lparr>Time = 300, Exercise_Name = ''Squat'', Repetitions = Some 5, Weight = Some (165 / 2)\<rparr>,
        \<lparr>Time = 200, Exercise_Name = ''Dip'', Repetitions = Some 8, Weight = Some 10\<rparr>,
        \<lparr>Time = 100, Exercise_Name = ''Squat'', Repetitions = Some 5, Weight = Some 80\<rparr>]"
    by (simp add: unified_table_def sort_values_descending_def pd_concat_def fillna_Weight_def)
  have c: "mset (unified_table ?p' ?g')
     = {#\<lparr>Time = 100, Exercise_Name = ''Squat'', Repetitions = Some 5, Weight = Some 80\<rparr>,
         \<lparr>Time = 200, Exercise_Name = ''Pull Up'', Repetitions = Some 8, Weight = Some 0\<rparr>#}"
    unfolding unified_table_rows [of ?p' ?g', THEN conjunct1] by simp
  from a b c show ?thesis by (intro conjI)
qed

section \<open>Properties of adapt_columns\<close>












































end
